theory Spec2Isabelle
  imports Complex_Main
begin

section \<open>Data model (types.ts)\<close>

text \<open>
  JavaScript numbers are modelled as reals: the finite values. A field that may be
  \<^verbatim>\<open>undefined\<close> or \<^verbatim>\<open>null\<close> is an option. Objects that are
  shared and mutated in place (nodes, GraphData, simulations) live in stores, and a
  reference is the index of the object in its store.
\<close>

datatype EntityType = PERSON | CONCEPT | DATA | METHOD | ORGANIZATION | UNKNOWN

type_synonym ref = nat
type_synonym gid = nat
type_synonym sid = nat

text \<open>
  \<^verbatim>\<open>interface Node extends d3.SimulationNodeDatum\<close>: the fields of the
  interface and the optional fields \<^verbatim>\<open>index, x, y, vx, vy, fx, fy\<close> it inherits.
  The fields \<^verbatim>\<open>id\<close>, \<^verbatim>\<open>type\<close>, \<^verbatim>\<open>x\<close> and \<^verbatim>\<open>y\<close> are
  named \<open>node_id\<close>, \<open>node_type\<close>, \<open>xpos\<close> and \<open>ypos\<close> here.
\<close>

record Node =
  node_id :: string
  label :: string
  node_type :: EntityType
  description :: string
  cluster :: "string option"
  index :: "nat option"
  xpos :: "real option"
  ypos :: "real option"
  vx :: "real option"
  vy :: "real option"
  fx :: "real option"
  fy :: "real option"

text \<open>\<^verbatim>\<open>source: string | Node\<close>: a raw id, or a reference to a node object.\<close>

datatype endpoint = Id string | Ref ref

record Link =
  source :: endpoint
  target :: endpoint
  link_label :: string
  strength :: real

record GraphData =
  nodes :: "ref list"
  links :: "Link list"

record GraphCanvasProps =
  data :: gid
  onNodeClick :: nat
  selectedNodeId :: "string option"

section \<open>The renderer's attribute functions (GraphCanvas.tsx)\<close>

fun TYPE_COLORS :: "EntityType \<Rightarrow> string" where
  "TYPE_COLORS PERSON = ''#ec4899''"
| "TYPE_COLORS CONCEPT = ''#3b82f6''"
| "TYPE_COLORS DATA = ''#10b981''"
| "TYPE_COLORS METHOD = ''#f59e0b''"
| "TYPE_COLORS ORGANIZATION = ''#8b5cf6''"
| "TYPE_COLORS UNKNOWN = ''#64748b''"

text \<open>\<^verbatim>\<open>.attr("stroke-width", d => Math.max(1, d.strength / 2))\<close>\<close>

definition link_stroke_width :: "Link \<Rightarrow> real" where
  "link_stroke_width d = max 1 (strength d / 2)"

text \<open>\<^verbatim>\<open>.attr("stroke", d => d.id === selectedNodeId ? "#fff" : "none")\<close>\<close>

definition node_stroke :: "string option \<Rightarrow> Node \<Rightarrow> string" where
  "node_stroke sel d = (if Some (node_id d) = sel then ''#fff'' else ''none'')"

section \<open>Drag handlers on a node (GraphCanvas.tsx)\<close>

text \<open>
  The drag event: \<open>active\<close> is the number of other drag gestures in progress,
  \<open>ev_x\<close>, \<open>ev_y\<close> the coordinates the event carries.
\<close>

record DragEvent =
  active :: nat
  ev_x :: real
  ev_y :: real

text \<open>The writes of the three handlers to the dragged node \<^verbatim>\<open>d\<close>.\<close>

definition dragstarted_node :: "Node \<Rightarrow> Node" where
  "dragstarted_node d = d\<lparr>fx := xpos d, fy := ypos d\<rparr>"

definition dragged_node :: "DragEvent \<Rightarrow> Node \<Rightarrow> Node" where
  "dragged_node event d = d\<lparr>fx := Some (ev_x event), fy := Some (ev_y event)\<rparr>"

definition dragended_node :: "Node \<Rightarrow> Node" where
  "dragended_node d = d\<lparr>fx := None, fy := None\<rparr>"

section \<open>The d3 library as the component calls it\<close>

text \<open>
  d3 is a dependency of the repository and is not under src/. The definitions of this
  section follow the specification's description of the engine; each says which part of
  the library it stands for. What the forces compute from the nodes is not modelled: it
  is a parameter, and so is what the library writes to a node when it initialises it.

  The error of the link force names the id it did not find. A link force holds the
  resolved links with a distance and a stiffness for each. A simulation holds its nodes,
  its cooling state, its friction factor, whether its timer is attached
  (\<open>running\<close>), the number of ticks it has executed, and the forces and the tick
  listener the component adds.
\<close>

datatype error = NodeNotFound string

record ForceLink =
  fl_links :: "Link list"
  distances :: "real list"
  strengths :: "real list"

record Simulation =
  sim_nodes :: "ref list"
  alpha :: real
  alphaMin :: real
  alphaDecay :: real
  alphaTarget :: real
  velocityDecay :: real
  running :: bool
  ticks :: nat
  link_force :: "ForceLink option"
  charge_strength :: "real option"
  center_force :: "(real \<times> real) option"
  collide_radius :: "real option"
  tick_listener :: bool

text \<open>
  Modelled from the spec: \<^verbatim>\<open>d3.forceSimulation(nodes)\<close> (d3-force, missing from
  src/). "A scalar temperature (alpha) starts near 1 and decays geometrically each tick;
  ticking halts once alpha drops below a small threshold (e.g. 0.001)"; "the engine halts
  within a bounded tick count (e.g. 300 at default decay rate)"; "velocity damped by a
  friction factor", the library's default. The source never starts the simulation
  explicitly, so a new simulation is running; \<open>ticks\<close> counts the ticks it has
  executed.
\<close>

definition new_simulation :: "ref list \<Rightarrow> Simulation" where
  "new_simulation ns =
     \<lparr>sim_nodes = ns, alpha = 1, alphaMin = 0.001, alphaDecay = 1 - 0.001 powr (1 / 300),
      alphaTarget = 0, velocityDecay = 0.6, running = True, ticks = 0, link_force = None,
      charge_strength = None, center_force = None, collide_radius = None,
      tick_listener = False\<rparr>"

text \<open>
  Modelled from the spec: the node initialisation of \<^verbatim>\<open>d3.forceSimulation\<close>
  (missing from src/). The library visits the node objects in order; what it writes to
  the \<open>i\<close>-th object (its index, its starting position and velocity) is the
  parameter \<open>init\<close>.
\<close>

fun initializeNodes ::
  "(nat \<Rightarrow> Node \<Rightarrow> Node) \<Rightarrow> nat \<Rightarrow> ref list \<Rightarrow> (ref \<Rightarrow> Node) \<Rightarrow> (ref \<Rightarrow> Node)" where
  "initializeNodes init i [] h = h"
| "initializeNodes init i (r # rs) h = initializeNodes init (Suc i) rs (h(r := init i (h r)))"

text \<open>
  Modelled from the spec: the lookup of a node by its id in the link force (d3-force's
  \<^verbatim>\<open>forceLink(links).id(d => d.id)\<close>, missing from src/): the node of the
  list that carries the id, the last one if several do, or none.
\<close>

definition find_node :: "(ref \<Rightarrow> Node) \<Rightarrow> ref list \<Rightarrow> string \<Rightarrow> ref option" where
  "find_node h ns nodeId = List.find (\<lambda>r. node_id (h r) = nodeId) (rev ns)"

text \<open>
  Modelled from the spec: the resolution of one endpoint (d3-force's link force, missing
  from src/). "Each Link's source/target is accepted as either a raw id string or an
  already-resolved node reference; the engine resolves strings to references exactly once
  at construction and fails construction if any id is not present among nodes", with "a
  validation error naming the offending id".
\<close>

fun resolve :: "(ref \<Rightarrow> Node) \<Rightarrow> ref list \<Rightarrow> endpoint \<Rightarrow> error + endpoint" where
  "resolve h ns (Ref r) = Inr (Ref r)"
| "resolve h ns (Id nodeId) =
     (case find_node h ns nodeId of
        None \<Rightarrow> Inl (NodeNotFound nodeId)
      | Some r \<Rightarrow> Inr (Ref r))"

text \<open>
  Modelled from the spec: the resolution of the links when the link force meets the nodes
  (d3-force's link force, missing from src/). The links are visited in order and written
  in place, source before target, so what precedes a failing endpoint stays resolved.
\<close>

fun resolve_links ::
  "(ref \<Rightarrow> Node) \<Rightarrow> ref list \<Rightarrow> Link list \<Rightarrow> Link list \<times> error option" where
  "resolve_links h ns [] = ([], None)"
| "resolve_links h ns (l # ls) =
     (case resolve h ns (source l) of
        Inl e \<Rightarrow> (l # ls, Some e)
      | Inr s \<Rightarrow>
          (case resolve h ns (target l) of
             Inl e \<Rightarrow> (l\<lparr>source := s\<rparr> # ls, Some e)
           | Inr t \<Rightarrow>
               (case resolve_links h ns ls of
                  (ls', r) \<Rightarrow> (l\<lparr>source := s, target := t\<rparr> # ls', r))))"

text \<open>
  Modelled from the spec: the number of links touching an endpoint (d3-force's link
  force, missing from src/): "the number of links touching each endpoint".
\<close>

definition link_count :: "Link list \<Rightarrow> endpoint \<Rightarrow> nat" where
  "link_count ls e = length (filter (\<lambda>l. source l = e) ls) + length (filter (\<lambda>l. target l = e) ls)"

text \<open>
  Modelled from the spec: the link force's stiffness (d3-force's default, missing from
  src/): "stiffness scales with the number of links touching each endpoint (standard
  force-directed degree normalization)", the reciprocal of the smaller of the two
  endpoints' link counts.
\<close>

definition defaultStrength :: "Link list \<Rightarrow> Link \<Rightarrow> real" where
  "defaultStrength ls l = 1 / real (min (link_count ls (source l)) (link_count ls (target l)))"

text \<open>
  \<^verbatim>\<open>d3.forceLink<Node, Link>(data.links).id(d => d.id).distance(150)\<close>, given the
  resolved links: the distance accessor is the one the component passes, the stiffness
  accessor is left at the library's default.
\<close>

definition forceLink :: "(Link \<Rightarrow> real) \<Rightarrow> Link list \<Rightarrow> ForceLink" where
  "forceLink distance ls =
     \<lparr>fl_links = ls, distances = map distance ls, strengths = map (defaultStrength ls) ls\<rparr>"

text \<open>
  Modelled from the spec: the cooling of one tick (d3-force's \<^verbatim>\<open>tick\<close>,
  missing from src/). Alpha moves towards its target by the decay rate, which with target
  0 is the spec's \<^verbatim>\<open>alpha *= 1 - decayRate\<close>; a raised target "reheats"
  the simulation.
\<close>

definition tick :: "Simulation \<Rightarrow> Simulation" where
  "tick s = s\<lparr>alpha := alpha s + (alphaTarget s - alpha s) * alphaDecay s, ticks := Suc (ticks s)\<rparr>"

text \<open>
  Modelled from the spec: one timer frame of a simulation (d3-force's \<^verbatim>\<open>step\<close>,
  missing from src/): a tick while the timer is attached, and "ticking halts once alpha
  drops below a small threshold".
\<close>

definition step :: "Simulation \<Rightarrow> Simulation" where
  "step s =
     (if running s
      then (let s' = tick s in if alpha s' < alphaMin s' then s'\<lparr>running := False\<rparr> else s')
      else s)"

text \<open>
  Modelled from the spec: \<^verbatim>\<open>simulation.stop()\<close> (d3-force, missing from src/):
  "an explicit stop operation that detaches its per-frame callback".
\<close>

definition stop :: "Simulation \<Rightarrow> Simulation" where
  "stop s = s\<lparr>running := False\<rparr>"

text \<open>
  Modelled from the spec: \<^verbatim>\<open>simulation.restart()\<close> (d3-force, missing from src/):
  the timer is attached again, as the reheating on a drag needs.
\<close>

definition restart :: "Simulation \<Rightarrow> Simulation" where
  "restart s = s\<lparr>running := True\<rparr>"

text \<open>
  Sums and products of coordinates: a coordinate that is not a number (\<open>None\<close>:
  undefined or NaN) makes the result not a number.
\<close>

definition num_add :: "real option \<Rightarrow> real option \<Rightarrow> real option" where
  "num_add a b = (case a of None \<Rightarrow> None | Some u \<Rightarrow> (case b of None \<Rightarrow> None | Some v \<Rightarrow> Some (u + v)))"

definition num_mul :: "real option \<Rightarrow> real option \<Rightarrow> real option" where
  "num_mul a b = (case a of None \<Rightarrow> None | Some u \<Rightarrow> (case b of None \<Rightarrow> None | Some v \<Rightarrow> Some (u * v)))"

text \<open>
  Modelled from the spec: the forces of a tick (d3-force, missing from src/): the engine
  "accumulates forces (link, repulsion, centering, collision) each step". What they compute
  is the parameter \<open>forces\<close>, from the simulation and the node objects; they write
  the positions and velocities of the simulation's nodes and nothing else.
\<close>

definition apply_forces ::
  "(Simulation \<Rightarrow> (ref \<Rightarrow> Node) \<Rightarrow> ref \<Rightarrow> Node) \<Rightarrow> Simulation \<Rightarrow> (ref \<Rightarrow> Node) \<Rightarrow> (ref \<Rightarrow> Node)" where
  "apply_forces forces s h =
     (\<lambda>r. if r \<in> set (sim_nodes s)
          then (h r)\<lparr>xpos := xpos (forces s h r), ypos := ypos (forces s h r),
                     vx := vx (forces s h r), vy := vy (forces s h r)\<rparr>
          else h r)"

text \<open>
  Modelled from the spec: the integration of one node in a tick (d3-force, missing from
  src/): "position += velocity", "velocity damped by a friction factor"; a pinned node is
  "excluded from force-driven position updates", and "its position equals the latest
  pointer coordinates exactly, irrespective of accumulated force": in each coordinate, a
  node with a pin is put at its pin, at rest, and a node without one moves by its damped
  velocity.
\<close>

definition integrate :: "real \<Rightarrow> Node \<Rightarrow> Node" where
  "integrate k n =
     n\<lparr>xpos := (case fx n of None \<Rightarrow> num_add (xpos n) (num_mul (vx n) (Some k)) | Some a \<Rightarrow> Some a),
       vx := (case fx n of None \<Rightarrow> num_mul (vx n) (Some k) | Some a \<Rightarrow> Some 0),
       ypos := (case fy n of None \<Rightarrow> num_add (ypos n) (num_mul (vy n) (Some k)) | Some b \<Rightarrow> Some b),
       vy := (case fy n of None \<Rightarrow> num_mul (vy n) (Some k) | Some b \<Rightarrow> Some 0)\<rparr>"

text \<open>
  Modelled from the spec: what one tick of a simulation does to the node objects
  (d3-force's \<^verbatim>\<open>tick\<close>, missing from src/): the forces, at the alpha of this
  tick, and then the integration of the simulation's nodes in their order.
\<close>

definition tick_nodes ::
  "(Simulation \<Rightarrow> (ref \<Rightarrow> Node) \<Rightarrow> ref \<Rightarrow> Node) \<Rightarrow> Simulation \<Rightarrow> (ref \<Rightarrow> Node) \<Rightarrow> (ref \<Rightarrow> Node)" where
  "tick_nodes forces s h =
     fold (\<lambda>r h'. h'(r := integrate (velocityDecay s) (h' r))) (sim_nodes s)
       (apply_forces forces (tick s) h)"

text \<open>The state of a simulation after \<open>n\<close> timer frames.\<close>

fun steps :: "nat \<Rightarrow> Simulation \<Rightarrow> Simulation" where
  "steps 0 s = s"
| "steps (Suc n) s = steps n (step s)"

text \<open>
  The viewport transform of the zoom behaviour, "a 2D affine transform (translation +
  uniform scale)", and its inputs: a wheel input with its delta and pointer position, a
  pan input with its displacement.
\<close>

record Transform =
  t_k :: real
  t_x :: real
  t_y :: real

datatype ZoomInput = Wheel real real real | Pan real real

text \<open>
  Modelled from the spec: the transform of a viewport that no input has moved (d3-zoom's
  identity transform, missing from src/).
\<close>

definition identity :: Transform where
  "identity = \<lparr>t_k = 1, t_x = 0, t_y = 0\<rparr>"

text \<open>
  Modelled from the spec: the change of scale (d3-zoom, missing from src/): the scale
  asked for is "clamped" to the extent the component passes to
  \<^verbatim>\<open>scaleExtent\<close>.
\<close>

definition scale_to :: "real \<times> real \<Rightarrow> Transform \<Rightarrow> real \<Rightarrow> Transform" where
  "scale_to extent t k' = t\<lparr>t_k := max (fst extent) (min (snd extent) k')\<rparr>"

text \<open>
  Modelled from the spec: the transform after a pan/zoom input (d3-zoom, missing from
  src/). A wheel input of delta \<open>dl\<close> at pointer \<open>(px, py)\<close> asks for the scale
  times \<open>2 powr dl\<close> and keeps the point under the pointer where it is; a pan
  input translates.
\<close>

fun zoom_transform :: "real \<times> real \<Rightarrow> ZoomInput \<Rightarrow> Transform \<Rightarrow> Transform" where
  "zoom_transform extent (Wheel dl px py) t =
     (let t' = scale_to extent t (t_k t * 2 powr dl)
      in t'\<lparr>t_x := px - (px - t_x t) / t_k t * t_k t', t_y := py - (py - t_y t) / t_k t * t_k t'\<rparr>)"
| "zoom_transform extent (Pan dx dy) t = t\<lparr>t_x := t_x t + dx, t_y := t_y t + dy\<rparr>"

section \<open>The component state\<close>

text \<open>
  The elements the effect draws. A node group keeps its datum and the simulation its drag
  handlers close over; a line keeps the index of its link in \<^verbatim>\<open>data.links\<close>.
\<close>

record LineEl =
  line_datum :: nat
  stroke_width :: real

record NodeEl =
  el_datum :: ref
  el_fill :: string
  el_stroke :: string
  el_sim :: sid

text \<open>
  The \<^verbatim>\<open>svg\<close> element: the zoom behaviour bound to it (its scale extent) and the
  transform the behaviour keeps on the element, the \<^verbatim>\<open>transform\<close>
  attribute of the group \<^verbatim>\<open>g\<close>, and the drawn elements.
\<close>

record Svg =
  zoom_extent :: "(real \<times> real) option"
  zoom_state :: Transform
  g_transform :: "Transform option"
  link_els :: "LineEl list"
  node_els :: "NodeEl list"

text \<open>
  The stores of node, GraphData and simulation objects, the window, and what React keeps
  for the component: \<^verbatim>\<open>svgRef.current\<close>, the dependencies of the last effect
  run, its cleanup (the simulation it stops), and an error thrown by the effect.
\<close>

record State =
  heap :: "ref \<Rightarrow> Node"
  graphs :: "gid \<Rightarrow> GraphData"
  sims :: "sid \<Rightarrow> Simulation"
  n_sims :: nat
  innerWidth :: real
  innerHeight :: real
  svgRef :: "Svg option"
  deps :: "GraphCanvasProps option"
  cleanup :: "sid option"
  thrown :: "error option"

datatype Outcome = Skipped | Threw error | Cleanup sid

section \<open>The effect of GraphCanvas\<close>

text \<open>\<^verbatim>\<open>svg.selectAll("*").remove(); const g = svg.append("g"); svg.call(zoom)\<close>\<close>

definition clear_svg :: "Svg \<Rightarrow> Svg" where
  "clear_svg svg =
     svg\<lparr>zoom_extent := Some (0.1, 4), g_transform := None, link_els := [], node_els := []\<rparr>"

text \<open>\<^verbatim>\<open>d3.forceSimulation<Node>(data.nodes)\<close>: the new simulation object \<open>n_sims st\<close>.\<close>

definition forceSimulation :: "(nat \<Rightarrow> Node \<Rightarrow> Node) \<Rightarrow> ref list \<Rightarrow> State \<Rightarrow> State" where
  "forceSimulation init ns st =
     st\<lparr>heap := initializeNodes init 0 ns (heap st),
        sims := (sims st)(n_sims st := new_simulation ns),
        n_sims := Suc (n_sims st)\<rparr>"

text \<open>
  The four \<^verbatim>\<open>.force(...)\<close> calls after the link force is initialised, and
  \<^verbatim>\<open>simulation.on("tick", ...)\<close>.
\<close>

definition add_forces :: "Link list \<Rightarrow> real \<Rightarrow> real \<Rightarrow> Simulation \<Rightarrow> Simulation" where
  "add_forces ls width height s =
     s\<lparr>link_force := Some (forceLink (\<lambda>l. 150) ls),
       charge_strength := Some (- 400),
       center_force := Some (width / 2, height / 2),
       collide_radius := Some 60,
       tick_listener := True\<rparr>"

definition draw_links :: "Link list \<Rightarrow> LineEl list" where
  "draw_links ls = map (\<lambda>i. \<lparr>line_datum = i, stroke_width = link_stroke_width (ls ! i)\<rparr>) [0..<length ls]"

definition draw_nodes :: "(ref \<Rightarrow> Node) \<Rightarrow> string option \<Rightarrow> sid \<Rightarrow> ref list \<Rightarrow> NodeEl list" where
  "draw_nodes h sel s ns =
     map (\<lambda>r. \<lparr>el_datum = r, el_fill = TYPE_COLORS (node_type (h r)),
               el_stroke = node_stroke sel (h r), el_sim = s\<rparr>) ns"

text \<open>
  The body of \<^verbatim>\<open>useEffect\<close>. The simulation is created over the nodes first;
  the link force meets the nodes, and resolves the links, when it is added to the
  simulation. An error thrown there leaves the effect at that point. The arrow marker,
  the text labels and the click listener are left out: they read the data and write
  nothing the statements below are about.
\<close>

definition effect :: "(nat \<Rightarrow> Node \<Rightarrow> Node) \<Rightarrow> GraphCanvasProps \<Rightarrow> State \<Rightarrow> State \<times> Outcome" where
  "effect init props st =
     (case svgRef st of
        None \<Rightarrow> (st, Skipped)
      | Some svg \<Rightarrow>
          (let d = graphs st (data props) in
           if nodes d = [] then (st, Skipped)
           else
             (let s = n_sims st;
                  st1 = forceSimulation init (nodes d) (st\<lparr>svgRef := Some (clear_svg svg)\<rparr>)
              in case resolve_links (heap st1) (nodes d) (links d) of
                   (ls, Some e) \<Rightarrow>
                     (st1\<lparr>graphs := (graphs st1)(data props := d\<lparr>links := ls\<rparr>)\<rparr>, Threw e)
                 | (ls, None) \<Rightarrow>
                     (st1\<lparr>graphs := (graphs st1)(data props := d\<lparr>links := ls\<rparr>),
                          sims := (sims st1)(s := add_forces ls (innerWidth st) (innerHeight st) (sims st1 s)),
                          svgRef := Some ((clear_svg svg)
                            \<lparr>link_els := draw_links ls,
                             node_els := draw_nodes (heap st1) (selectedNodeId props) s (nodes d)\<rparr>)\<rparr>,
                      Cleanup s))))"

section \<open>React and the events\<close>

text \<open>The cleanup the effect returns: \<^verbatim>\<open>simulation.stop()\<close>.\<close>

definition run_cleanup :: "State \<Rightarrow> State" where
  "run_cleanup st =
     (case cleanup st of
        None \<Rightarrow> st
      | Some s \<Rightarrow> st\<lparr>sims := (sims st)(s := stop (sims st s)), cleanup := None\<rparr>)"

text \<open>
  A render with the given props. With the dependencies
  \<^verbatim>\<open>[data, onNodeClick, selectedNodeId]\<close> unchanged nothing runs; otherwise the
  previous cleanup runs and then the effect. An effect that throws has returned no
  cleanup, and React removes the component.
\<close>

definition render :: "(nat \<Rightarrow> Node \<Rightarrow> Node) \<Rightarrow> GraphCanvasProps \<Rightarrow> State \<Rightarrow> State" where
  "render init props st =
     (if deps st = Some props then st
      else
        (case effect init props (run_cleanup st) of
           (st', Skipped) \<Rightarrow> st'\<lparr>deps := Some props\<rparr>
         | (st', Threw e) \<Rightarrow> st'\<lparr>deps := None, svgRef := None, thrown := Some e\<rparr>
         | (st', Cleanup s) \<Rightarrow> st'\<lparr>deps := Some props, cleanup := Some s\<rparr>))"

definition unmount :: "State \<Rightarrow> State" where
  "unmount st = (run_cleanup st)\<lparr>deps := None, svgRef := None\<rparr>"

text \<open>
  One animation frame: every simulation whose timer is attached steps, and its tick
  writes the node objects; the simulations take their turns in the order of their
  creation.
\<close>

definition frame :: "(Simulation \<Rightarrow> (ref \<Rightarrow> Node) \<Rightarrow> ref \<Rightarrow> Node) \<Rightarrow> State \<Rightarrow> State" where
  "frame forces st =
     st\<lparr>sims := (\<lambda>s. if s < n_sims st then step (sims st s) else sims st s),
        heap := fold (\<lambda>s h. if running (sims st s) then tick_nodes forces (sims st s) h else h)
                  [0..<n_sims st] (heap st)\<rparr>"

text \<open>
  The drag handlers, for a node group and the simulation its handlers close over. A drag
  start occurs on a node group \<open>i\<close> of the drawn elements only.
\<close>

definition dragstarted :: "DragEvent \<Rightarrow> NodeEl \<Rightarrow> State \<Rightarrow> State" where
  "dragstarted event el st =
     (let st1 = (if active event = 0
                 then st\<lparr>sims := (sims st)(el_sim el := restart ((sims st (el_sim el))\<lparr>alphaTarget := 0.3\<rparr>))\<rparr>
                 else st)
      in st1\<lparr>heap := (heap st1)(el_datum el := dragstarted_node (heap st1 (el_datum el)))\<rparr>)"

definition dragged :: "DragEvent \<Rightarrow> NodeEl \<Rightarrow> State \<Rightarrow> State" where
  "dragged event el st =
     st\<lparr>heap := (heap st)(el_datum el := dragged_node event (heap st (el_datum el)))\<rparr>"

definition dragended :: "DragEvent \<Rightarrow> NodeEl \<Rightarrow> State \<Rightarrow> State" where
  "dragended event el st =
     (let st1 = (if active event = 0
                 then st\<lparr>sims := (sims st)(el_sim el := (sims st (el_sim el))\<lparr>alphaTarget := 0\<rparr>)\<rparr>
                 else st)
      in st1\<lparr>heap := (heap st1)(el_datum el := dragended_node (heap st1 (el_datum el)))\<rparr>)"

definition on_node :: "nat \<Rightarrow> (NodeEl \<Rightarrow> State \<Rightarrow> State) \<Rightarrow> State \<Rightarrow> State" where
  "on_node i handler st =
     (case svgRef st of
        None \<Rightarrow> st
      | Some svg \<Rightarrow> if i < length (node_els svg) then handler (node_els svg ! i) st else st)"

text \<open>
  A zoom input on the svg: the behaviour computes the new transform and the listener
  writes it to the group, \<^verbatim>\<open>g.attr("transform", event.transform)\<close>.
\<close>

definition zoomed :: "ZoomInput \<Rightarrow> State \<Rightarrow> State" where
  "zoomed z st =
     (case svgRef st of
        None \<Rightarrow> st
      | Some svg \<Rightarrow>
          (case zoom_extent svg of
             None \<Rightarrow> st
           | Some extent \<Rightarrow>
               (let t = zoom_transform extent z (zoom_state svg)
                in st\<lparr>svgRef := Some (svg\<lparr>zoom_state := t, g_transform := Some t\<rparr>)\<rparr>)))"

text \<open>
  The events. A drag gesture listens on the window once it has begun, so its moves and its
  end still reach the handlers when the node group it began on has been removed:
  \<open>GestureMove\<close> and \<open>GestureEnd\<close> carry that node group.
\<close>

datatype Event =
    Render GraphCanvasProps
  | Unmount
  | Frame
  | DragStart nat DragEvent
  | Drag nat DragEvent
  | DragEnd nat DragEvent
  | GestureMove NodeEl DragEvent
  | GestureEnd NodeEl DragEvent
  | Zoom ZoomInput

fun handle ::
  "(Simulation \<Rightarrow> (ref \<Rightarrow> Node) \<Rightarrow> ref \<Rightarrow> Node) \<Rightarrow> (nat \<Rightarrow> Node \<Rightarrow> Node) \<Rightarrow> Event \<Rightarrow> State \<Rightarrow> State" where
  "handle forces init (Render props) st = render init props st"
| "handle forces init Unmount st = unmount st"
| "handle forces init Frame st = frame forces st"
| "handle forces init (DragStart i event) st = on_node i (dragstarted event) st"
| "handle forces init (Drag i event) st = on_node i (dragged event) st"
| "handle forces init (DragEnd i event) st = on_node i (dragended event) st"
| "handle forces init (GestureMove el event) st = dragged event el st"
| "handle forces init (GestureEnd el event) st = dragended event el st"
| "handle forces init (Zoom z) st = zoomed z st"

fun run ::
  "(Simulation \<Rightarrow> (ref \<Rightarrow> Node) \<Rightarrow> ref \<Rightarrow> Node) \<Rightarrow> (nat \<Rightarrow> Node \<Rightarrow> Node) \<Rightarrow> Event list \<Rightarrow> State \<Rightarrow> State" where
  "run forces init [] st = st"
| "run forces init (e # es) st = run forces init es (handle forces init e st)"

text \<open>The state when the component is mounted, before its first effect runs.\<close>

definition mounted ::
  "(ref \<Rightarrow> Node) \<Rightarrow> (gid \<Rightarrow> GraphData) \<Rightarrow> real \<Rightarrow> real \<Rightarrow> State" where
  "mounted h gs width height =
     \<lparr>heap = h, graphs = gs, sims = (\<lambda>s. stop (new_simulation [])), n_sims = 0,
      innerWidth = width, innerHeight = height,
      svgRef = Some \<lparr>zoom_extent = None, zoom_state = identity, g_transform = None,
                     link_els = [], node_els = []\<rparr>,
      deps = None, cleanup = None, thrown = None\<rparr>"

section \<open>Predicates of the statements\<close>

text \<open>
  An endpoint \<open>e'\<close> is the resolution of the endpoint \<open>e\<close>: a reference stays as it
  is, a raw id becomes a reference to a node of the list that carries the id.
\<close>

fun resolved_as :: "(ref \<Rightarrow> Node) \<Rightarrow> ref list \<Rightarrow> endpoint \<Rightarrow> endpoint \<Rightarrow> bool" where
  "resolved_as h ns (Ref r) e' = (e' = Ref r)"
| "resolved_as h ns (Id nodeId) e' =
     (case e' of Ref r \<Rightarrow> r \<in> set ns \<and> node_id (h r) = nodeId | Id _ \<Rightarrow> False)"

fun is_ref :: "endpoint \<Rightarrow> bool" where
  "is_ref (Ref r) = True"
| "is_ref (Id nodeId) = False"

definition all_refs :: "Link list \<Rightarrow> bool" where
  "all_refs ls = list_all (\<lambda>l. is_ref (source l) \<and> is_ref (target l)) ls"

text \<open>The links with their strength values replaced by the values of a list.\<close>

definition with_strengths :: "real list \<Rightarrow> Link list \<Rightarrow> Link list" where
  "with_strengths vs ls = map (\<lambda>(v, l). l\<lparr>strength := v\<rparr>) (zip vs ls)"

text \<open>The scale of a transform lies in the extent the component sets.\<close>

definition scale_in_extent :: "Transform \<Rightarrow> bool" where
  "scale_in_extent t = (0.1 \<le> t_k t \<and> t_k t \<le> 4)"

section \<open>Invariants of the reachable states\<close>

text \<open>
  While a cleanup is registered, the simulation it stops exists, the svg is mounted, and
  the GraphData of the last effect run has nodes and resolved links.
\<close>

definition consistent :: "State \<Rightarrow> bool" where
  "consistent st =
     (case cleanup st of
        None \<Rightarrow> True
      | Some s \<Rightarrow> s < n_sims st \<and> svgRef st \<noteq> None \<and>
          (case deps st of
             None \<Rightarrow> False
           | Some p \<Rightarrow> nodes (graphs st (data p)) \<noteq> [] \<and> all_refs (links (graphs st (data p)))))"

text \<open>
  A simulation is detached: its timer is off, no cleanup stops it and no drawn node group
  has handlers that close over it.
\<close>

definition detached :: "sid \<Rightarrow> State \<Rightarrow> bool" where
  "detached s st =
     (s < n_sims st \<and> \<not> running (sims st s) \<and> cleanup st \<noteq> Some s \<and>
      (case svgRef st of
         None \<Rightarrow> True
       | Some svg \<Rightarrow> list_all (\<lambda>el. el_sim el \<noteq> s) (node_els svg)))"

text \<open>
  The viewport is within the extent: the transform the zoom behaviour keeps and the
  transform written to the group have their scale in \<open>[0.1, 4]\<close>, and a bound zoom
  behaviour has this extent.
\<close>

definition zoom_ok :: "State \<Rightarrow> bool" where
  "zoom_ok st =
     (case svgRef st of
        None \<Rightarrow> True
      | Some svg \<Rightarrow>
          scale_in_extent (zoom_state svg) \<and>
          (case g_transform svg of None \<Rightarrow> True | Some t \<Rightarrow> scale_in_extent t) \<and>
          (case zoom_extent svg of None \<Rightarrow> True | Some extent \<Rightarrow> extent = (0.1, 4)))"


section \<open>Example states\<close>

text \<open>A node object as the analysis delivers it, without coordinates.\<close>

definition node_a :: Node where
  "node_a = \<lparr>node_id = ''a'', label = ''Ada'', node_type = PERSON, description = ''a person'',
     cluster = None, index = None, xpos = None, ypos = None, vx = None, vy = None,
     fx = None, fy = None\<rparr>"

text \<open>A node object that has coordinates already: it lies at \<open>(10, 0)\<close>, at rest.\<close>

definition node_b :: Node where
  "node_b = \<lparr>node_id = ''b'', label = ''Logic'', node_type = CONCEPT, description = ''a concept'',
     cluster = None, index = None, xpos = Some 10, ypos = Some 0, vx = Some 0, vy = Some 0,
     fx = None, fy = None\<rparr>"

definition ex_heap :: "ref \<Rightarrow> Node" where
  "ex_heap r = (if r = 0 then node_a else node_b)"

definition ex_link :: "endpoint \<Rightarrow> endpoint \<Rightarrow> Link" where
  "ex_link s t = \<lparr>source = s, target = t, link_label = ''uses'', strength = 5\<rparr>"

text \<open>
  Four GraphData objects: a graph of two linked nodes; a graph without nodes whose link
  names an unknown id; a graph of one node whose link names an unknown id; a graph of one
  node whose link holds a reference to a node object outside its node list.
\<close>

definition ex_graphs :: "gid \<Rightarrow> GraphData" where
  "ex_graphs g =
     (if g = 0 then \<lparr>nodes = [0, 1], links = [ex_link (Id ''a'') (Id ''b'')]\<rparr>
      else if g = 1 then \<lparr>nodes = [], links = [ex_link (Id ''a'') (Id ''zzz'')]\<rparr>
      else if g = 2 then \<lparr>nodes = [0], links = [ex_link (Id ''a'') (Id ''zzz'')]\<rparr>
      else \<lparr>nodes = [0], links = [ex_link (Ref 0) (Ref 1)]\<rparr>)"

text \<open>
  An example of a node initialisation, for the witnesses: it assigns the index, moves a
  pinned node to its pin, keeps the coordinates and the velocity a node has, and puts a
  node without coordinates at \<open>(10 i, 0)\<close>, at rest. The library's own placement
  is not modelled; the theorems hold for every initialisation.
\<close>

definition ex_init :: "nat \<Rightarrow> Node \<Rightarrow> Node" where
  "ex_init i n =
     (if (fx n = None \<and> xpos n = None) \<or> (fy n = None \<and> ypos n = None)
      then n\<lparr>index := Some i, xpos := Some (10 * real i), ypos := Some 0\<rparr>
      else n\<lparr>index := Some i,
             xpos := (case fx n of None \<Rightarrow> xpos n | Some a \<Rightarrow> Some a),
             ypos := (case fy n of None \<Rightarrow> ypos n | Some b \<Rightarrow> Some b)\<rparr>)
       \<lparr>vx := (if vx n = None \<or> vy n = None then Some 0 else vx n),
        vy := (if vx n = None \<or> vy n = None then Some 0 else vy n)\<rparr>"

text \<open>
  An example of forces, for the witnesses: they shift every node by 3 to the right and
  set its velocity to \<open>(1, 1)\<close>.
\<close>

definition ex_forces :: "Simulation \<Rightarrow> (ref \<Rightarrow> Node) \<Rightarrow> ref \<Rightarrow> Node" where
  "ex_forces s h r = (h r)\<lparr>xpos := num_add (xpos (h r)) (Some 3), vx := Some 1, vy := Some 1\<rparr>"

definition ex_state :: State where
  "ex_state = mounted ex_heap ex_graphs 800 600"

definition ex_props :: "gid \<Rightarrow> string option \<Rightarrow> GraphCanvasProps" where
  "ex_props g sel = \<lparr>data = g, onNodeClick = 0, selectedNodeId = sel\<rparr>"

text \<open>A drag event with no other gesture in progress.\<close>

definition ex_event :: DragEvent where
  "ex_event = \<lparr>active = 0, ev_x = 50, ev_y = 70\<rparr>"

section \<open>Auxiliary facts\<close>

lemmas ex_defs = node_a_def node_b_def ex_heap_def ex_link_def ex_graphs_def ex_init_def
  ex_state_def ex_props_def mounted_def

lemmas model_defs = effect_def render_def run_cleanup_def forceSimulation_def clear_svg_def
  add_forces_def draw_links_def draw_nodes_def forceLink_def new_simulation_def find_node_def
  unmount_def frame_def on_node_def dragstarted_def dragged_def dragended_def zoomed_def
  node_stroke_def link_stroke_width_def stop_def restart_def step_def tick_def identity_def
  dragstarted_node_def dragged_node_def dragended_node_def

lemma find_SomeD: "List.find P xs = Some a \<Longrightarrow> a \<in> set xs \<and> P a"
  by (induction xs) (auto split: if_splits)

lemma find_node_Some: "find_node h ns i = Some r \<Longrightarrow> r \<in> set ns \<and> node_id (h r) = i"
  unfolding find_node_def using find_SomeD[of "\<lambda>r. node_id (h r) = i" "rev ns" r] by simp

lemma find_node_None: "find_node h ns i = None \<longleftrightarrow> (\<forall>r\<in>set ns. node_id (h r) \<noteq> i)"
  unfolding find_node_def by (auto simp: find_None_iff)

lemma resolve_Inr: "resolve h ns e = Inr e' \<Longrightarrow> resolved_as h ns e e'"
  by (cases e) (auto split: option.splits dest: find_node_Some)

lemma resolve_Inl: "resolve h ns e = Inl err \<Longrightarrow>
   \<exists>i. e = Id i \<and> err = NodeNotFound i \<and> (\<forall>r\<in>set ns. node_id (h r) \<noteq> i)"
  by (cases e) (auto split: option.splits simp: find_node_None)

lemma resolve_links_length: "length (fst (resolve_links h ns ls)) = length ls"
  by (induction ls) (auto split: sum.splits prod.splits)

lemma resolve_links_strength: "map strength (fst (resolve_links h ns ls)) = map strength ls"
  by (induction ls) (auto split: sum.splits prod.splits)

lemma resolve_links_None:
  "resolve_links h ns ls = (ls', None) \<Longrightarrow> i < length ls \<Longrightarrow>
     resolved_as h ns (source (ls ! i)) (source (ls' ! i)) \<and>
     resolved_as h ns (target (ls ! i)) (target (ls' ! i))"
proof (induction ls arbitrary: ls' i)
  case Nil
  then show ?case by simp
next
  case (Cons l ls)
  from Cons.prems(1) obtain s t ls2 where
    s: "resolve h ns (source l) = Inr s" and t: "resolve h ns (target l) = Inr t"
    and r: "resolve_links h ns ls = (ls2, None)" and ls': "ls' = l\<lparr>source := s, target := t\<rparr> # ls2"
    by (auto split: sum.splits prod.splits)
  show ?case
  proof (cases i)
    case 0
    with s t ls' show ?thesis by (simp add: resolve_Inr)
  next
    case (Suc j)
    with Cons.prems(2) have "j < length ls" by simp
    from Cons.IH[OF r this] Suc ls' show ?thesis by simp
  qed
qed

lemma resolve_links_Some:
  "resolve_links h ns ls = (ls', Some err) \<Longrightarrow>
     \<exists>l\<in>set ls. \<exists>i. (source l = Id i \<or> target l = Id i) \<and> err = NodeNotFound i \<and>
        (\<forall>r\<in>set ns. node_id (h r) \<noteq> i)"
proof (induction ls arbitrary: ls')
  case Nil
  then show ?case by simp
next
  case (Cons l ls)
  show ?case
  proof (cases "resolve h ns (source l)")
    case (Inl e)
    with Cons.prems have "e = err" by simp
    with Inl resolve_Inl[of h ns "source l" err] show ?thesis by auto
  next
    case (Inr s)
    show ?thesis
    proof (cases "resolve h ns (target l)")
      case (Inl e)
      with Inr Cons.prems have "e = err" by simp
      with Inl resolve_Inl[of h ns "target l" err] show ?thesis by auto
    next
      case (Inr t)
      with \<open>resolve h ns (source l) = Inr s\<close> Cons.prems
      obtain ls2 where "resolve_links h ns ls = (ls2, Some err)"
        by (auto split: prod.splits)
      from Cons.IH[OF this] show ?thesis by auto
    qed
  qed
qed

text \<open>What the effect leaves behind, by its outcome.\<close>

lemma effect_Skipped_iff:
  "snd (effect init props st) = Skipped \<longleftrightarrow> svgRef st = None \<or> nodes (graphs st (data props)) = []"
  by (auto simp: effect_def Let_def split: option.splits prod.splits)

lemma effect_Cleanup:
  assumes "effect init props st = (st', Cleanup s)"
  shows "\<exists>svg ls. svgRef st = Some svg \<and> nodes (graphs st (data props)) \<noteq> [] \<and> s = n_sims st \<and>
     resolve_links (initializeNodes init 0 (nodes (graphs st (data props))) (heap st))
        (nodes (graphs st (data props))) (links (graphs st (data props))) = (ls, None) \<and>
     heap st' = initializeNodes init 0 (nodes (graphs st (data props))) (heap st) \<and>
     graphs st' = (graphs st)(data props := (graphs st (data props))\<lparr>links := ls\<rparr>) \<and>
     sims st' = (sims st)(s := add_forces ls (innerWidth st) (innerHeight st)
                   (new_simulation (nodes (graphs st (data props))))) \<and>
     n_sims st' = Suc (n_sims st) \<and>
     svgRef st' = Some ((clear_svg svg)\<lparr>link_els := draw_links ls,
        node_els := draw_nodes (heap st') (selectedNodeId props) s (nodes (graphs st (data props)))\<rparr>) \<and>
     deps st' = deps st \<and> cleanup st' = cleanup st \<and> thrown st' = thrown st"
  using assms
  by (auto simp: effect_def Let_def forceSimulation_def split: option.splits prod.splits if_splits)

lemma effect_Threw:
  assumes "effect init props st = (st', Threw e)"
  shows "\<exists>svg ls. svgRef st = Some svg \<and> nodes (graphs st (data props)) \<noteq> [] \<and>
     resolve_links (initializeNodes init 0 (nodes (graphs st (data props))) (heap st))
        (nodes (graphs st (data props))) (links (graphs st (data props))) = (ls, Some e) \<and>
     heap st' = initializeNodes init 0 (nodes (graphs st (data props))) (heap st) \<and>
     graphs st' = (graphs st)(data props := (graphs st (data props))\<lparr>links := ls\<rparr>) \<and>
     sims st' = (sims st)(n_sims st := new_simulation (nodes (graphs st (data props)))) \<and>
     n_sims st' = Suc (n_sims st) \<and>
     svgRef st' = Some (clear_svg svg) \<and>
     deps st' = deps st \<and> cleanup st' = cleanup st \<and> thrown st' = thrown st"
  using assms
  by (auto simp: effect_def Let_def forceSimulation_def split: option.splits prod.splits if_splits)

text \<open>Resolved links stay as they are.\<close>

lemma resolve_is_ref: "resolve h ns e = Inr e' \<Longrightarrow> is_ref e'"
  by (cases e) (auto split: option.splits)

lemma resolve_links_all_refs: "resolve_links h ns ls = (ls', None) \<Longrightarrow> all_refs ls'"
  by (induction ls arbitrary: ls')
     (auto simp: all_refs_def split: sum.splits prod.splits dest: resolve_is_ref)

lemma resolve_ref: "is_ref e \<Longrightarrow> resolve h ns e = Inr e"
  by (cases e) auto

lemma resolve_links_id: "all_refs ls \<Longrightarrow> resolve_links h ns ls = (ls, None)"
  by (induction ls) (auto simp: all_refs_def resolve_ref)

lemma run_cleanup_simps:
  "heap (run_cleanup st) = heap st" "graphs (run_cleanup st) = graphs st"
  "n_sims (run_cleanup st) = n_sims st" "svgRef (run_cleanup st) = svgRef st"
  "deps (run_cleanup st) = deps st" "cleanup (run_cleanup st) = None"
  "thrown (run_cleanup st) = thrown st"
  "innerWidth (run_cleanup st) = innerWidth st" "innerHeight (run_cleanup st) = innerHeight st"
  by (auto simp: run_cleanup_def split: option.splits)

lemma run_cleanup_sims:
  "sims (run_cleanup st) = (case cleanup st of None \<Rightarrow> sims st | Some s \<Rightarrow> (sims st)(s := stop (sims st s)))"
  by (auto simp: run_cleanup_def split: option.splits)

lemma consistent_render: "consistent st \<Longrightarrow> consistent (render init props st)"
proof (cases "deps st = Some props")
  case True
  assume "consistent st"
  with True show ?thesis by (simp add: render_def)
next
  case False
  obtain st' out where e: "effect init props (run_cleanup st) = (st', out)" by force
  show ?thesis
  proof (cases out)
    case Skipped
    with e have "st' = run_cleanup st"
      by (auto simp: effect_def Let_def split: option.splits prod.splits if_splits)
    with e False Skipped show ?thesis
      by (auto simp: render_def consistent_def run_cleanup_simps split: option.splits)
  next
    case (Threw err)
    from effect_Threw[OF e[unfolded Threw]] e False Threw show ?thesis
      by (auto simp: render_def consistent_def run_cleanup_simps split: option.splits)
  next
    case (Cleanup s)
    from effect_Cleanup[OF e[unfolded Cleanup]] e False Cleanup show ?thesis
      by (auto simp: render_def consistent_def run_cleanup_simps dest: resolve_links_all_refs split: option.splits)
  qed
qed

lemma consistent_on_node:
  assumes "\<And>el st. cleanup (f el st) = cleanup st \<and> n_sims (f el st) = n_sims st \<and>
     svgRef (f el st) = svgRef st \<and> deps (f el st) = deps st \<and> graphs (f el st) = graphs st"
  shows "consistent st \<Longrightarrow> consistent (on_node i f st)"
  using assms by (auto simp: on_node_def consistent_def split: option.splits)

lemma consistent_handle: "consistent st \<Longrightarrow> consistent (handle forces init e st)"
proof (cases e)
  case (Render props)
  assume "consistent st"
  with Render show ?thesis by (simp add: consistent_render)
next
  case Unmount
  then show ?thesis by (auto simp: unmount_def consistent_def run_cleanup_simps split: option.splits)
next
  case Frame
  assume "consistent st"
  with Frame show ?thesis by (auto simp: frame_def consistent_def split: option.splits)
next
  case (DragStart i ev)
  assume "consistent st"
  with DragStart show ?thesis
    by (auto intro!: consistent_on_node simp: dragstarted_def Let_def)
next
  case (Drag i ev)
  assume "consistent st"
  with Drag show ?thesis
    by (auto intro!: consistent_on_node simp: dragged_def Let_def)
next
  case (DragEnd i ev)
  assume "consistent st"
  with DragEnd show ?thesis
    by (auto intro!: consistent_on_node simp: dragended_def Let_def)
next
  case (GestureMove el ev)
  assume "consistent st"
  with GestureMove show ?thesis
    by (auto simp: dragged_def consistent_def split: option.splits)
next
  case (GestureEnd el ev)
  assume "consistent st"
  with GestureEnd show ?thesis
    by (auto simp: dragended_def consistent_def Let_def split: option.splits)
next
  case (Zoom z)
  assume "consistent st"
  with Zoom show ?thesis
    by (auto simp: zoomed_def consistent_def Let_def split: option.splits)
qed

lemma consistent_run: "consistent st \<Longrightarrow> consistent (run forces init evs st)"
  by (induction evs arbitrary: st) (auto simp: consistent_handle)

lemma consistent_mounted: "consistent (mounted h gs w ht)"
  by (auto simp: consistent_def mounted_def split: option.splits)

lemma reachable_consistent: "consistent (run forces init evs (mounted h gs w ht))"
  by (simp add: consistent_run consistent_mounted)

text \<open>A detached simulation stays detached, and executes no tick, under every event.\<close>

lemma effect_sims_other:
  "s < n_sims st \<Longrightarrow> sims (fst (effect init props st)) s = sims st s"
  by (auto simp: effect_def Let_def forceSimulation_def split: option.splits prod.splits)

lemma effect_n_sims: "n_sims st \<le> n_sims (fst (effect init props st))"
  by (auto simp: effect_def Let_def forceSimulation_def split: option.splits prod.splits)

lemma detached_render:
  assumes "detached s st"
  shows "detached s (render init props st) \<and> sims (render init props st) s = sims st s"
proof (cases "deps st = Some props")
  case True
  with assms show ?thesis by (simp add: render_def)
next
  case False
  let ?c = "run_cleanup st"
  from assms have c: "detached s ?c" and cs: "sims ?c s = sims st s"
    by (auto simp: detached_def run_cleanup_simps run_cleanup_sims stop_def split: option.splits)
  obtain st' out where e: "effect init props ?c = (st', out)" by force
  from c have lt: "s < n_sims ?c" by (simp add: detached_def)
  from effect_sims_other[OF lt, of init props] e have same: "sims st' s = sims ?c s" by simp
  show ?thesis
  proof (cases out)
    case Skipped
    with e have "st' = ?c"
      by (auto simp: effect_def Let_def split: option.splits prod.splits if_splits)
    with e False Skipped c cs show ?thesis
      by (auto simp: render_def detached_def split: option.splits)
  next
    case (Threw err)
    from effect_Threw[OF e[unfolded Threw]] e False Threw c cs same show ?thesis
      by (auto simp: render_def detached_def)
  next
    case (Cleanup s2)
    from effect_Cleanup[OF e[unfolded Cleanup]] e False Cleanup c cs same show ?thesis
      by (auto simp: render_def detached_def draw_nodes_def list_all_iff)
  qed
qed

lemma detached_on_node:
  assumes "detached s st"
    and "\<And>el st. el_sim el \<noteq> s \<Longrightarrow> sims (f el st) s = sims st s"
    and "\<And>el st. n_sims (f el st) = n_sims st \<and> cleanup (f el st) = cleanup st \<and> svgRef (f el st) = svgRef st"
  shows "detached s (on_node i f st) \<and> sims (on_node i f st) s = sims st s"
proof (cases "svgRef st")
  case None
  with assms(1) show ?thesis by (simp add: on_node_def)
next
  case (Some svg)
  show ?thesis
  proof (cases "i < length (node_els svg)")
    case False
    with Some assms(1) show ?thesis by (simp add: on_node_def)
  next
    case True
    with Some assms(1) have "el_sim (node_els svg ! i) \<noteq> s"
      by (auto simp: detached_def list_all_length)
    with Some True assms show ?thesis
      by (auto simp: on_node_def detached_def)
  qed
qed

lemma detached_handle:
  assumes "detached s st"
  shows "detached s (handle forces init e st) \<and> ticks (sims (handle forces init e st) s) = ticks (sims st s)"
proof (cases e)
  case (Render props)
  with detached_render[OF assms] show ?thesis by simp
next
  case Unmount
  with assms show ?thesis
    by (auto simp: unmount_def detached_def run_cleanup_simps run_cleanup_sims stop_def
        split: option.splits)
next
  case Frame
  with assms show ?thesis
    by (auto simp: frame_def detached_def step_def split: option.splits)
next
  case (DragStart i ev)
  with detached_on_node[OF assms, of "dragstarted ev" i] show ?thesis
    by (simp add: dragstarted_def Let_def)
next
  case (Drag i ev)
  with detached_on_node[OF assms, of "dragged ev" i] show ?thesis
    by (simp add: dragged_def Let_def)
next
  case (DragEnd i ev)
  with detached_on_node[OF assms, of "dragended ev" i] show ?thesis
    by (simp add: dragended_def Let_def)
next
  case (GestureMove el ev)
  with assms show ?thesis
    by (auto simp: dragged_def detached_def split: option.splits)
next
  case (GestureEnd el ev)
  with assms show ?thesis
    by (auto simp: dragended_def detached_def Let_def split: option.splits)
next
  case (Zoom z)
  with assms show ?thesis
    by (auto simp: zoomed_def detached_def Let_def split: option.splits)
qed

lemma detached_run:
  "detached s st \<Longrightarrow>
     detached s (run forces init evs st) \<and> ticks (sims (run forces init evs st) s) = ticks (sims st s)"
proof (induction evs arbitrary: st)
  case Nil
  then show ?case by simp
next
  case (Cons e es)
  from detached_handle[OF Cons.prems, of forces init e]
  have d: "detached s (handle forces init e st)"
    and s: "ticks (sims (handle forces init e st) s) = ticks (sims st s)"
    by simp_all
  from Cons.IH[OF d] s show ?case by simp
qed

text \<open>The zoom behaviour keeps the scale within the extent.\<close>

lemma zoom_transform_in_extent:
  "scale_in_extent t \<Longrightarrow> scale_in_extent (zoom_transform (0.1, 4) z t)"
  by (cases z) (auto simp: scale_in_extent_def scale_to_def Let_def)

lemma zoom_ok_effect: "zoom_ok st \<Longrightarrow> zoom_ok (fst (effect init props st))"
  by (auto simp: effect_def zoom_ok_def clear_svg_def forceSimulation_def Let_def
      split: option.splits prod.splits)

lemma zoom_ok_run_cleanup: "zoom_ok (run_cleanup st) = zoom_ok st"
  by (simp add: zoom_ok_def run_cleanup_simps)

lemma zoom_ok_render: "zoom_ok st \<Longrightarrow> zoom_ok (render init props st)"
proof -
  assume a: "zoom_ok st"
  obtain st' out where e: "effect init props (run_cleanup st) = (st', out)" by force
  from a have "zoom_ok (fst (effect init props (run_cleanup st)))"
    by (simp add: zoom_ok_effect zoom_ok_run_cleanup)
  with e have "zoom_ok st'" by simp
  with a e show ?thesis
    by (cases out) (auto simp: render_def zoom_ok_def)
qed

lemma zoom_ok_on_node:
  assumes "\<And>el st. svgRef (f el st) = svgRef st"
  shows "zoom_ok st \<Longrightarrow> zoom_ok (on_node i f st)"
  using assms by (auto simp: on_node_def zoom_ok_def split: option.splits)

lemma zoom_ok_zoomed: "zoom_ok st \<Longrightarrow> zoom_ok (zoomed z st)"
proof (cases "svgRef st")
  case None
  assume "zoom_ok st"
  with None show ?thesis by (simp add: zoomed_def)
next
  case (Some svg)
  assume a: "zoom_ok st"
  show ?thesis
  proof (cases "zoom_extent svg")
    case None
    with Some a show ?thesis by (simp add: zoomed_def)
  next
    case (Some extent)
    with \<open>svgRef st = Some svg\<close> a have ext: "extent = (0.1, 4)"
      and s: "scale_in_extent (zoom_state svg)"
      by (auto simp: zoom_ok_def)
    from zoom_transform_in_extent[OF s, of z] ext Some \<open>svgRef st = Some svg\<close>
    show ?thesis
      by (simp add: zoomed_def zoom_ok_def Let_def)
  qed
qed

lemma zoom_ok_handle: "zoom_ok st \<Longrightarrow> zoom_ok (handle forces init e st)"
proof (cases e)
  case (Render props)
  assume "zoom_ok st"
  with Render show ?thesis by (simp add: zoom_ok_render)
next
  case Unmount
  then show ?thesis by (simp add: unmount_def zoom_ok_def)
next
  case Frame
  assume "zoom_ok st"
  with Frame show ?thesis by (simp add: frame_def zoom_ok_def)
next
  case (DragStart i ev)
  assume "zoom_ok st"
  with DragStart show ?thesis
    by (auto intro!: zoom_ok_on_node simp: dragstarted_def Let_def)
next
  case (Drag i ev)
  assume "zoom_ok st"
  with Drag show ?thesis
    by (auto intro!: zoom_ok_on_node simp: dragged_def)
next
  case (DragEnd i ev)
  assume "zoom_ok st"
  with DragEnd show ?thesis
    by (auto intro!: zoom_ok_on_node simp: dragended_def Let_def)
next
  case (GestureMove el ev)
  assume "zoom_ok st"
  with GestureMove show ?thesis by (simp add: dragged_def zoom_ok_def)
next
  case (GestureEnd el ev)
  assume "zoom_ok st"
  with GestureEnd show ?thesis by (simp add: dragended_def zoom_ok_def Let_def)
next
  case (Zoom z)
  assume "zoom_ok st"
  with Zoom show ?thesis by (simp add: zoom_ok_zoomed)
qed

lemma zoom_ok_run: "zoom_ok st \<Longrightarrow> zoom_ok (run forces init evs st)"
  by (induction evs arbitrary: st) (auto simp: zoom_ok_handle)

lemma zoom_ok_mounted: "zoom_ok (mounted h gs w ht)"
  by (simp add: zoom_ok_def mounted_def scale_in_extent_def identity_def)

lemma zoomed_frame:
  "heap (zoomed z st) = heap st \<and> sims (zoomed z st) = sims st \<and> graphs (zoomed z st) = graphs st"
  by (auto simp: zoomed_def Let_def split: option.splits)

lemma zooms_frame:
  "heap (run forces init (map Zoom zs) st) = heap st \<and> sims (run forces init (map Zoom zs) st) = sims st"
  by (induction zs arbitrary: st) (auto simp: zoomed_frame)




text \<open>The cooling of a simulation that no drag reheats.\<close>

lemma steps_add: "steps (a + b) s = steps b (steps a s)"
  by (induction a arbitrary: s) simp_all

lemma steps_halted: "\<not> running s \<Longrightarrow> steps n s = s"
  by (induction n) (simp_all add: step_def)

lemma tick_cool:
  "alphaTarget s = 0 \<Longrightarrow> tick s = s\<lparr>alpha := alpha s * (1 - alphaDecay s), ticks := Suc (ticks s)\<rparr>"
  by (simp add: tick_def right_diff_distrib)

lemma step_cool:
  "running s \<Longrightarrow> alphaTarget s = 0 \<Longrightarrow> alphaMin s \<le> alpha s * (1 - alphaDecay s) \<Longrightarrow>
     step s = s\<lparr>alpha := alpha s * (1 - alphaDecay s), ticks := Suc (ticks s)\<rparr>"
  by (simp add: step_def Let_def tick_cool)

lemma step_halt:
  "running s \<Longrightarrow> alphaTarget s = 0 \<Longrightarrow> alpha s * (1 - alphaDecay s) < alphaMin s \<Longrightarrow>
     step s = s\<lparr>alpha := alpha s * (1 - alphaDecay s), ticks := Suc (ticks s), running := False\<rparr>"
  by (simp add: step_def Let_def tick_cool)

lemma steps_cooling:
  "running s \<Longrightarrow> alphaTarget s = 0 \<Longrightarrow>
   (\<And>k. k < n \<Longrightarrow> alphaMin s \<le> alpha s * (1 - alphaDecay s) ^ Suc k) \<Longrightarrow>
   steps n s = s\<lparr>alpha := alpha s * (1 - alphaDecay s) ^ n, ticks := ticks s + n\<rparr>"
proof (induction n arbitrary: s)
  case 0
  show ?case by simp
next
  case (Suc n)
  let ?q = "1 - alphaDecay s"
  from Suc.prems(3)[of 0] have first: "alphaMin s \<le> alpha s * ?q" by simp
  from step_cool[OF Suc.prems(1,2) first]
  have st: "step s = s\<lparr>alpha := alpha s * ?q, ticks := Suc (ticks s)\<rparr>" .
  have r: "running (step s)" and t: "alphaTarget (step s) = 0"
    using Suc.prems(1,2) by (simp_all add: st)
  have later: "alphaMin (step s) \<le> alpha (step s) * (1 - alphaDecay (step s)) ^ Suc k" if "k < n" for k
  proof -
    from that have "Suc k < Suc n" by simp
    from Suc.prems(3)[OF this] show ?thesis by (simp add: st mult.assoc)
  qed
  have "steps (Suc n) s = steps n (step s)" by simp
  also from Suc.IH[OF r t later]
  have "steps n (step s) =
      (step s)\<lparr>alpha := alpha (step s) * (1 - alphaDecay (step s)) ^ n, ticks := ticks (step s) + n\<rparr>"
    by simp
  also have "\<dots> = s\<lparr>alpha := alpha s * ?q ^ Suc n, ticks := ticks s + Suc n\<rparr>"
    by (simp add: st mult.assoc)
  finally show ?case .
qed

lemma cooling_halts:
  assumes "running s" and "alphaTarget s = 0" and "alpha s = 1"
    and "0 < alphaDecay s" and "alphaDecay s < 1" and "0 < alphaMin s" and "alphaMin s \<le> 1"
  shows "\<exists>N>0. (1 - alphaDecay s) ^ N < alphaMin s \<and>
           (\<forall>n<N. alphaMin s \<le> (1 - alphaDecay s) ^ n) \<and>
           (\<forall>n. steps n s = s\<lparr>alpha := (1 - alphaDecay s) ^ min n N, ticks := ticks s + min n N,
                                running := n < N\<rparr>)"
proof -
  let ?q = "1 - alphaDecay s"
  define N where "N = (LEAST n. ?q ^ n < alphaMin s)"
  from assms(4,5) have q: "0 < ?q" "?q < 1" by simp_all
  from real_arch_pow_inv[OF assms(6) q(2)] have ex: "\<exists>n. ?q ^ n < alphaMin s" .
  then have below: "?q ^ N < alphaMin s"
    unfolding N_def by (rule LeastI_ex)
  have above: "alphaMin s \<le> ?q ^ n" if "n < N" for n
    using not_less_Least[of n "\<lambda>n. ?q ^ n < alphaMin s"] that unfolding N_def by simp
  have pos: "0 < N"
  proof (rule ccontr)
    assume "\<not> 0 < N"
    then have "N = 0" by simp
    with below assms(7) show False by simp
  qed
  have before: "steps n s = s\<lparr>alpha := ?q ^ n, ticks := ticks s + n\<rparr>" if "n < N" for n
  proof -
    have "alphaMin s \<le> alpha s * ?q ^ Suc k" if "k < n" for k
    proof -
      from that \<open>n < N\<close> have "Suc k < N" by simp
      from above[OF this] assms(3) show ?thesis by simp
    qed
    from steps_cooling[OF assms(1,2) this] assms(3) show ?thesis by simp
  qed
  obtain M where M: "N = Suc M" using pos by (cases N) auto
  have "steps N s = step (steps M s)"
    using steps_add[of M 1 s] M by simp
  also have "steps M s = s\<lparr>alpha := ?q ^ M, ticks := ticks s + M\<rparr>"
    using before[of M] M by simp
  also have "step (s\<lparr>alpha := ?q ^ M, ticks := ticks s + M\<rparr>) =
      s\<lparr>alpha := ?q ^ N, ticks := ticks s + N, running := False\<rparr>"
    using below assms(1,2) M
      step_halt[of "s\<lparr>alpha := ?q ^ M, ticks := ticks s + M\<rparr>"]
    by (simp add: mult.commute)
  finally have at: "steps N s = s\<lparr>alpha := ?q ^ N, ticks := ticks s + N, running := False\<rparr>" .
  have all: "steps n s = s\<lparr>alpha := ?q ^ min n N, ticks := ticks s + min n N, running := n < N\<rparr>" for n
  proof (cases "n < N")
    case True
    with before[OF True] assms(1) show ?thesis by (simp add: min_def)
  next
    case False
    then obtain k where k: "n = N + k" by (metis le_Suc_ex not_less)
    have "steps n s = steps k (steps N s)" using k steps_add[of N k s] by simp
    also have "\<dots> = steps N s" using at by (simp add: steps_halted)
    finally show ?thesis using at False by (simp add: min_def)
  qed
  from pos below above all show ?thesis
    by (intro exI[of _ N]) simp
qed

lemma alphaDecay_default: "0 < 1 - (0.001::real) powr (1 / 300) \<and> 1 - (0.001::real) powr (1 / 300) < 1"
  by (simp add: powr01_less_one)

lemma frames_steps:
  "s < n_sims st \<Longrightarrow>
     sims (run forces init (replicate n Frame) st) s = steps n (sims st s) \<and>
     n_sims (run forces init (replicate n Frame) st) = n_sims st"
  by (induction n arbitrary: st) (simp_all add: frame_def)

text \<open>The resolution of the links and the link force do not read the strength values.\<close>

lemma with_strengths_Cons:
  "with_strengths (v # vs) (l # ls) = l\<lparr>strength := v\<rparr> # with_strengths vs ls"
  by (simp add: with_strengths_def)

lemma with_strengths_length:
  "length vs = length ls \<Longrightarrow> length (with_strengths vs ls) = length ls"
  by (simp add: with_strengths_def)

lemma with_strengths_endpoints:
  "length vs = length ls \<Longrightarrow>
     map source (with_strengths vs ls) = map source ls \<and>
     map target (with_strengths vs ls) = map target ls"
proof (induction ls arbitrary: vs)
  case Nil
  then show ?case by (simp add: with_strengths_def)
next
  case (Cons l ls)
  then obtain v vs' where vs: "vs = v # vs'" and len: "length vs' = length ls"
    by (cases vs) auto
  from Cons.IH[OF len] vs show ?case by (simp add: with_strengths_Cons)
qed

lemma resolve_links_with_strengths:
  "length vs = length ls \<Longrightarrow>
     resolve_links h ns (with_strengths vs ls) =
       (with_strengths vs (fst (resolve_links h ns ls)), snd (resolve_links h ns ls))"
proof (induction ls arbitrary: vs)
  case Nil
  then show ?case by (simp add: with_strengths_def)
next
  case (Cons l ls)
  then obtain v vs' where vs: "vs = v # vs'" and len: "length vs' = length ls"
    by (cases vs) auto
  from Cons.IH[OF len] vs show ?case
    by (auto simp: with_strengths_Cons split: sum.splits prod.splits)
qed

lemma link_count_endpoints:
  assumes "map source ls' = map source ls" and "map target ls' = map target ls"
  shows "link_count ls' e = link_count ls e"
proof -
  have "length (filter (\<lambda>l. source l = e) ls') = length (filter (\<lambda>s. s = e) (map source ls'))"
    by (simp add: filter_map comp_def)
  also have "\<dots> = length (filter (\<lambda>l. source l = e) ls)"
    unfolding assms(1) by (simp add: filter_map comp_def)
  finally have s: "length (filter (\<lambda>l. source l = e) ls') = length (filter (\<lambda>l. source l = e) ls)" .
  have "length (filter (\<lambda>l. target l = e) ls') = length (filter (\<lambda>t. t = e) (map target ls'))"
    by (simp add: filter_map comp_def)
  also have "\<dots> = length (filter (\<lambda>l. target l = e) ls)"
    unfolding assms(2) by (simp add: filter_map comp_def)
  finally have t: "length (filter (\<lambda>l. target l = e) ls') = length (filter (\<lambda>l. target l = e) ls)" .
  from s t show ?thesis by (simp add: link_count_def)
qed

lemma strengths_endpoints:
  assumes "map source ls' = map source ls" and "map target ls' = map target ls"
  shows "map (defaultStrength ls') ls' = map (defaultStrength ls) ls"
proof (rule nth_equalityI)
  from assms(1) have len: "length ls' = length ls" by (rule map_eq_imp_length_eq)
  then show "length (map (defaultStrength ls') ls') = length (map (defaultStrength ls) ls)"
    by simp
  fix i assume "i < length (map (defaultStrength ls') ls')"
  with len have i: "i < length ls" "i < length ls'" by simp_all
  from assms(1) i have src: "source (ls' ! i) = source (ls ! i)" by (metis nth_map)
  from assms(2) i have tgt: "target (ls' ! i) = target (ls ! i)" by (metis nth_map)
  from i src tgt link_count_endpoints[OF assms]
  show "map (defaultStrength ls') ls' ! i = map (defaultStrength ls) ls ! i"
    by (simp add: defaultStrength_def)
qed





lemma apply_forces_other: "r \<notin> set (sim_nodes s) \<Longrightarrow> apply_forces forces s h r = h r"
  by (simp add: apply_forces_def)
























section \<open>The claims\<close>

text \<open>
  C1 (as the code has it). For a GraphData with a non-empty node list, shown on a mounted
  svg, the construction either succeeds, with every endpoint given as a raw id resolved
  to a node of the node list that carries the id and every endpoint given as a reference
  kept as it is, unchecked; or it throws an error that names an id which an endpoint of
  some link gives and no node of the list carries. The error is thrown before any tick
  of the new simulation, but after the simulation has been created and started: it is
  running, the simulations before it are untouched, and a first render registers no
  cleanup that would stop it.
\<close>

theorem construction_resolves_or_throws:
  assumes "svgRef st = Some svg" and "nodes (graphs st (data props)) \<noteq> []"
  shows "(\<exists>st'. effect init props st = (st', Cleanup (n_sims st)) \<and>
            length (links (graphs st' (data props))) = length (links (graphs st (data props))) \<and>
            (\<forall>i<length (links (graphs st (data props))).
               resolved_as (heap st') (nodes (graphs st (data props)))
                 (source (links (graphs st (data props)) ! i)) (source (links (graphs st' (data props)) ! i)) \<and>
               resolved_as (heap st') (nodes (graphs st (data props)))
                 (target (links (graphs st (data props)) ! i)) (target (links (graphs st' (data props)) ! i))))
       \<or>
         (\<exists>st' nodeId. effect init props st = (st', Threw (NodeNotFound nodeId)) \<and>
            (\<exists>l\<in>set (links (graphs st (data props))). source l = Id nodeId \<or> target l = Id nodeId) \<and>
            (\<forall>r\<in>set (nodes (graphs st (data props))). node_id (heap st' r) \<noteq> nodeId) \<and>
            n_sims st' = Suc (n_sims st) \<and>
            running (sims st' (n_sims st)) \<and> ticks (sims st' (n_sims st)) = 0 \<and>
            (\<forall>s<n_sims st. sims st' s = sims st s) \<and>
            (deps st \<noteq> Some props \<and> cleanup st = None \<longrightarrow>
               thrown (render init props st) = Some (NodeNotFound nodeId) \<and>
               cleanup (render init props st) = None \<and>
               running (sims (render init props st) (n_sims st))))"
proof -
  let ?d = "graphs st (data props)"
  obtain st' out where e: "effect init props st = (st', out)" by force
  show ?thesis
  proof (cases out)
    case Skipped
    with e effect_Skipped_iff[of init props st] assms show ?thesis by simp
  next
    case (Cleanup s)
    from effect_Cleanup[OF e[unfolded Cleanup]] obtain ls where
      s: "s = n_sims st"
      and r: "resolve_links (heap st') (nodes ?d) (links ?d) = (ls, None)"
      and g: "graphs st' = (graphs st)(data props := ?d\<lparr>links := ls\<rparr>)"
      by auto
    from r resolve_links_length[of "heap st'" "nodes ?d" "links ?d"]
    have len: "length ls = length (links ?d)" by simp
    from g have l': "links (graphs st' (data props)) = ls" by simp
    from resolve_links_None[OF r] e Cleanup s len l' show ?thesis by auto
  next
    case (Threw err)
    from effect_Threw[OF e[unfolded Threw]] obtain ls where
      r: "resolve_links (heap st') (nodes ?d) (links ?d) = (ls, Some err)"
      and sims': "sims st' = (sims st)(n_sims st := new_simulation (nodes ?d))"
      and n: "n_sims st' = Suc (n_sims st)"
      and c: "cleanup st' = cleanup st"
      by auto
    from resolve_links_Some[OF r] obtain l i where
      l: "l \<in> set (links ?d)" "source l = Id i \<or> target l = Id i" and err: "err = NodeNotFound i"
      and no: "\<forall>r\<in>set (nodes ?d). node_id (heap st' r) \<noteq> i"
      by auto
    have rend: "thrown (render init props st) = Some err \<and> cleanup (render init props st) = None \<and>
        running (sims (render init props st) (n_sims st))"
      if "deps st \<noteq> Some props" "cleanup st = None"
      using that e Threw sims' c
      by (simp add: render_def run_cleanup_def new_simulation_def)
    have e': "effect init props st = (st', Threw (NodeNotFound i))"
      using e Threw err by simp
    have run': "running (sims st' (n_sims st)) \<and> ticks (sims st' (n_sims st)) = 0"
      using sims' by (simp add: new_simulation_def)
    have old: "\<forall>s<n_sims st. sims st' s = sims st s"
      using sims' by simp
    have "\<exists>l\<in>set (links ?d). source l = Id i \<or> target l = Id i"
      using l by blast
    with e' run' old no n rend err show ?thesis
      by (intro disjI2 exI[of _ st'] exI[of _ i]) simp
  qed
qed

theorem construction_resolves_or_throws_witness:
  "svgRef ex_state \<noteq> None \<and>
   nodes (graphs ex_state (data (ex_props 0 None))) \<noteq> [] \<and>
   snd (effect ex_init (ex_props 0 None) ex_state) = Cleanup 0 \<and>
   links (graphs (fst (effect ex_init (ex_props 0 None) ex_state)) 0) = [ex_link (Ref 0) (Ref 1)] \<and>
   nodes (graphs ex_state (data (ex_props 2 None))) \<noteq> [] \<and>
   deps ex_state \<noteq> Some (ex_props 2 None) \<and> cleanup ex_state = None \<and>
   snd (effect ex_init (ex_props 2 None) ex_state) = Threw (NodeNotFound ''zzz'') \<and>
   thrown (render ex_init (ex_props 2 None) ex_state) = Some (NodeNotFound ''zzz'')"
proof -
  obtain svg where a: "svgRef ex_state = Some svg" by (simp add: ex_defs)
  have b: "nodes (graphs ex_state (data (ex_props 0 None))) \<noteq> []" by (simp add: ex_defs)
  have c: "nodes (graphs ex_state (data (ex_props 2 None))) \<noteq> []" by (simp add: ex_defs)
  from construction_resolves_or_throws[OF a b, of ex_init]
       construction_resolves_or_throws[OF a c, of ex_init] a b c
  show ?thesis
    by (simp add: ex_defs model_defs)
qed

text \<open>
  The claim as stated fails in both branches: with a link to the unknown id \<open>zzz\<close> the
  error is thrown while a simulation is already running, and nothing stops it; with a
  link that holds a reference to a node object outside the node list the construction
  succeeds and keeps that reference.
\<close>

theorem dangling_link_counterexample:
  "snd (effect ex_init (ex_props 2 None) ex_state) = Threw (NodeNotFound ''zzz'') \<and>
   n_sims ex_state = 0 \<and>
   n_sims (render ex_init (ex_props 2 None) ex_state) = 1 \<and>
   running (sims (render ex_init (ex_props 2 None) ex_state) 0) \<and>
   cleanup (render ex_init (ex_props 2 None) ex_state) = None \<and>
   snd (effect ex_init (ex_props 3 None) ex_state) = Cleanup 0 \<and>
   nodes (graphs ex_state 3) = [0] \<and>
   target (links (graphs (fst (effect ex_init (ex_props 3 None) ex_state)) 3) ! 0) = Ref 1"
  by (simp add: ex_defs model_defs)

text \<open>
  C2 (as the code has it). The selected id is a dependency of the effect. When only the
  selected id changes, the cleanup stops the running simulation and the effect runs
  again: a new simulation is constructed over the same node objects and started at
  alpha 1 with no tick executed, the node objects go through the library's node
  initialisation again, the GraphData is unchanged, and the node groups are drawn anew
  with the highlight of the new id.
\<close>

theorem selection_change_rebuilds:
  assumes "st = run forces init evs (mounted h gs w ht)"
    and "deps st = Some props" and "cleanup st = Some s" and "sel \<noteq> selectedNodeId props"
  shows "let st' = render init (props\<lparr>selectedNodeId := sel\<rparr>) st; d = graphs st (data props) in
     \<not> running (sims st' s) \<and>
     n_sims st' = Suc (n_sims st) \<and> cleanup st' = Some (n_sims st) \<and>
     sims st' (n_sims st) =
       add_forces (links d) (innerWidth st) (innerHeight st) (new_simulation (nodes d)) \<and>
     running (sims st' (n_sims st)) \<and> alpha (sims st' (n_sims st)) = 1 \<and>
     ticks (sims st' (n_sims st)) = 0 \<and>
     heap st' = initializeNodes init 0 (nodes d) (heap st) \<and>
     graphs st' = graphs st \<and>
     (\<exists>svg. svgRef st' = Some svg \<and>
        node_els svg = draw_nodes (heap st') sel (n_sims st) (nodes d))"
proof -
  let ?p = "props\<lparr>selectedNodeId := sel\<rparr>"
  let ?d = "graphs st (data props)"
  let ?c = "run_cleanup st"
  from assms(1) have "consistent st" by (simp add: reachable_consistent)
  with assms(2,3) obtain svg where lt: "s < n_sims st" and svg: "svgRef st = Some svg"
    and ne: "nodes ?d \<noteq> []" and refs: "all_refs (links ?d)"
    by (auto simp: consistent_def)
  from assms(2,4) have changed: "deps st \<noteq> Some ?p"
    by (cases props) auto
  have res: "resolve_links hp (nodes ?d) (links ?d) = (links ?d, None)" for hp
    using refs by (rule resolve_links_id)
  have eff: "effect init ?p ?c =
     (?c\<lparr>heap := initializeNodes init 0 (nodes ?d) (heap st),
          sims := (sims ?c)(n_sims st := add_forces (links ?d) (innerWidth st) (innerHeight st)
                     (new_simulation (nodes ?d))),
          n_sims := Suc (n_sims st),
          graphs := (graphs st)(data props := ?d\<lparr>links := links ?d\<rparr>),
          svgRef := Some ((clear_svg svg)\<lparr>link_els := draw_links (links ?d),
             node_els := draw_nodes (initializeNodes init 0 (nodes ?d) (heap st)) sel (n_sims st) (nodes ?d)\<rparr>)\<rparr>,
      Cleanup (n_sims st))"
    using svg ne res
    by (simp add: effect_def Let_def forceSimulation_def run_cleanup_simps)
  have stop_s: "sims ?c s = stop (sims st s)"
    using assms(3) by (simp add: run_cleanup_sims)
  from changed eff lt stop_s show ?thesis
    by (simp add: render_def Let_def run_cleanup_simps add_forces_def new_simulation_def stop_def)
qed

theorem selection_change_rebuilds_witness:
  "(let st = run ex_forces ex_init [Render (ex_props 0 None)] ex_state;
        st' = render ex_init ((ex_props 0 None)\<lparr>selectedNodeId := Some ''a''\<rparr>) st
    in deps st = Some (ex_props 0 None) \<and> cleanup st = Some 0 \<and>
       Some ''a'' \<noteq> selectedNodeId (ex_props 0 None) \<and>
       \<not> running (sims st' 0) \<and> n_sims st' = Suc (Suc 0) \<and> cleanup st' = Some (Suc 0) \<and>
       running (sims st' (Suc 0)) \<and> alpha (sims st' (Suc 0)) = 1)"
proof -
  let ?st = "run ex_forces ex_init [Render (ex_props 0 None)] ex_state"
  have a: "?st = run ex_forces ex_init [Render (ex_props 0 None)] (mounted ex_heap ex_graphs 800 600)"
    by (simp add: ex_state_def)
  have b: "deps ?st = Some (ex_props 0 None)" and c: "cleanup ?st = Some 0"
    and n: "n_sims ?st = 1"
    by (simp_all add: ex_defs model_defs)
  have d: "Some ''a'' \<noteq> selectedNodeId (ex_props 0 None)" by (simp add: ex_props_def)
  from selection_change_rebuilds[OF a b c d] b c d n show ?thesis
    by (simp add: Let_def add_forces_def new_simulation_def)
qed

text \<open>
  The claim as stated fails: after a change of the selected id alone the first simulation
  is stopped and a second one has been constructed, running at alpha 1.
\<close>

theorem selection_change_counterexample:
  "running (sims (run ex_forces ex_init [Render (ex_props 0 None)] ex_state) 0) \<and>
   n_sims (run ex_forces ex_init [Render (ex_props 0 None)] ex_state) = 1 \<and>
   \<not> running (sims (run ex_forces ex_init [Render (ex_props 0 None), Render (ex_props 0 (Some ''a''))] ex_state) 0) \<and>
   n_sims (run ex_forces ex_init [Render (ex_props 0 None), Render (ex_props 0 (Some ''a''))] ex_state) = 2 \<and>
   running (sims (run ex_forces ex_init [Render (ex_props 0 None), Render (ex_props 0 (Some ''a''))] ex_state) 1) \<and>
   alpha (sims (run ex_forces ex_init [Render (ex_props 0 None), Render (ex_props 0 (Some ''a''))] ex_state) 1) = 1"
  by (simp add: ex_defs model_defs)

text \<open>
  C3. In every state the component reaches from its mount, by any sequence of events,
  the scale of the viewport transform lies in \<open>[0.1, 4]\<close>, for the transform the zoom
  behaviour keeps and for the one written to the group; and a sequence of zoom inputs,
  whatever their deltas, leaves every node object and every simulation as it was.
\<close>

theorem zoom_scale_clamped:
  "(case svgRef (run forces init evs (mounted h gs w ht)) of
      None \<Rightarrow> True
    | Some svg \<Rightarrow>
        0.1 \<le> t_k (zoom_state svg) \<and> t_k (zoom_state svg) \<le> 4 \<and>
        (case g_transform svg of None \<Rightarrow> True | Some t \<Rightarrow> 0.1 \<le> t_k t \<and> t_k t \<le> 4)) \<and>
   heap (run forces init (map Zoom zs) st) = heap st \<and>
   sims (run forces init (map Zoom zs) st) = sims st"
proof -
  have "zoom_ok (run forces init evs (mounted h gs w ht))"
    by (simp add: zoom_ok_run zoom_ok_mounted)
  then show ?thesis
    by (auto simp: zoom_ok_def scale_in_extent_def zooms_frame split: option.splits)
qed

theorem zoom_scale_clamped_witness:
  "(let st = run ex_forces ex_init [Render (ex_props 0 None), Zoom (Wheel 1000 3 4), Zoom (Pan (- 20) 5),
                          Zoom (Wheel (- 5000) 0 0)] ex_state
    in svgRef st \<noteq> None \<and>
       0.1 \<le> t_k (zoom_state (the (svgRef st))) \<and> t_k (zoom_state (the (svgRef st))) \<le> 4 \<and>
       xpos (heap st 1) = Some 10)"
proof -
  let ?evs = "[Render (ex_props 0 None), Zoom (Wheel 1000 3 4), Zoom (Pan (- 20) 5),
               Zoom (Wheel (- 5000) 0 0)]"
  have a: "svgRef (run ex_forces ex_init ?evs (mounted ex_heap ex_graphs 800 600)) \<noteq> None"
    by (simp add: ex_defs model_defs Let_def)
  have b: "xpos (heap (run ex_forces ex_init [Render (ex_props 0 None)] ex_state) 1) = Some 10"
    by (simp add: ex_defs model_defs)
  from zoom_scale_clamped[of ex_forces ex_init ?evs ex_heap ex_graphs 800 600
      "[Wheel 1000 3 4, Pan (- 20) 5, Wheel (- 5000) 0 0]"
      "run ex_forces ex_init [Render (ex_props 0 None)] ex_state"] a b
  show ?thesis
    by (auto simp: Let_def ex_state_def split: option.splits)
qed

text \<open>
  C4. After an effect run that draws, the line of every link has stroke width
  \<open>max 1 (strength / 2)\<close>, and the circle of every node has the highlight stroke
  exactly when the node's id is the selected id of the props.
\<close>

theorem rendered_weight_and_highlight:
  assumes "effect init props st = (st', Cleanup s)"
  shows "\<exists>svg. svgRef st' = Some svg \<and>
     length (link_els svg) = length (links (graphs st (data props))) \<and>
     (\<forall>i<length (links (graphs st (data props))).
        line_datum (link_els svg ! i) = i \<and>
        stroke_width (link_els svg ! i) = max 1 (strength (links (graphs st (data props)) ! i) / 2)) \<and>
     length (node_els svg) = length (nodes (graphs st (data props))) \<and>
     (\<forall>j<length (nodes (graphs st (data props))).
        el_datum (node_els svg ! j) = nodes (graphs st (data props)) ! j \<and>
        (el_stroke (node_els svg ! j) = ''#fff'') =
          (selectedNodeId props = Some (node_id (heap st' (nodes (graphs st (data props)) ! j)))))"
proof -
  let ?d = "graphs st (data props)"
  from effect_Cleanup[OF assms] obtain svg ls where
    r: "resolve_links (heap st') (nodes ?d) (links ?d) = (ls, None)"
    and svg: "svgRef st' = Some ((clear_svg svg)\<lparr>link_els := draw_links ls,
        node_els := draw_nodes (heap st') (selectedNodeId props) s (nodes ?d)\<rparr>)"
    by auto
  from r resolve_links_length[of "heap st'" "nodes ?d" "links ?d"]
  have len: "length ls = length (links ?d)" by simp
  from r resolve_links_strength[of "heap st'" "nodes ?d" "links ?d"]
  have str: "map strength ls = map strength (links ?d)" by simp
  have "strength (ls ! i) = strength (links ?d ! i)" if "i < length (links ?d)" for i
    using that len str by (metis nth_map)
  with len svg show ?thesis
    by (auto simp: draw_links_def draw_nodes_def link_stroke_width_def node_stroke_def)
qed

theorem rendered_weight_and_highlight_witness:
  "effect ex_init (ex_props 0 (Some ''b'')) ex_state =
     (fst (effect ex_init (ex_props 0 (Some ''b'')) ex_state), Cleanup 0) \<and>
   map stroke_width (link_els (the (svgRef (fst (effect ex_init (ex_props 0 (Some ''b'')) ex_state))))) = [5 / 2] \<and>
   map el_stroke (node_els (the (svgRef (fst (effect ex_init (ex_props 0 (Some ''b'')) ex_state))))) = [''none'', ''#fff'']"
proof -
  have h: "effect ex_init (ex_props 0 (Some ''b'')) ex_state =
     (fst (effect ex_init (ex_props 0 (Some ''b'')) ex_state), Cleanup 0)"
    by (simp add: ex_defs model_defs)
  from rendered_weight_and_highlight[OF h] h show ?thesis
    by (simp add: ex_defs model_defs)
qed




text \<open>
  C6. The simulation an effect run constructs starts running at alpha 1 with target 0
  and threshold 0.001. As long as only animation frames occur (no drag input), there is
  a tick count \<open>N > 0\<close>, the first at which \<open>(1 - alphaDecay) ^ N\<close> is below the
  threshold, such that after \<open>n\<close> frames the simulation has executed
  \<open>min n N\<close> ticks, its alpha is \<open>(1 - alphaDecay) ^ min n N\<close>, and it is running
  exactly while \<open>n < N\<close>: alpha decays geometrically, the ticking halts when alpha
  drops below the threshold and not at a fixed count, and alpha never increases.
\<close>

theorem alpha_cools_and_halts:
  assumes "effect init props st = (st', Cleanup s)"
  shows "alpha (sims st' s) = 1 \<and> alphaTarget (sims st' s) = 0 \<and>
     alphaMin (sims st' s) = 0.001 \<and> running (sims st' s) \<and>
     0 < alphaDecay (sims st' s) \<and> alphaDecay (sims st' s) < 1 \<and>
     (\<exists>N>0. (1 - alphaDecay (sims st' s)) ^ N < alphaMin (sims st' s) \<and>
        (\<forall>n<N. alphaMin (sims st' s) \<le> (1 - alphaDecay (sims st' s)) ^ n) \<and>
        (\<forall>n. running (sims (run forces init (replicate n Frame) st') s) = (n < N) \<and>
             ticks (sims (run forces init (replicate n Frame) st') s) = min n N \<and>
             alpha (sims (run forces init (replicate n Frame) st') s) =
               (1 - alphaDecay (sims st' s)) ^ min n N)) \<and>
     (\<forall>n. alpha (sims (run forces init (replicate (Suc n) Frame) st') s)
          \<le> alpha (sims (run forces init (replicate n Frame) st') s))"
proof -
  let ?s = "sims st' s"
  let ?q = "1 - alphaDecay ?s"
  from effect_Cleanup[OF assms] obtain ls where
    sim: "?s = add_forces ls (innerWidth st) (innerHeight st)
            (new_simulation (nodes (graphs st (data props))))"
    and lt: "s < n_sims st'"
    by auto
  from sim have init: "alpha ?s = 1" "alphaTarget ?s = 0" "alphaMin ?s = 0.001" "running ?s"
    "ticks ?s = 0" "alphaDecay ?s = 1 - 0.001 powr (1 / 300)"
    by (simp_all add: add_forces_def new_simulation_def)
  with alphaDecay_default have d: "0 < alphaDecay ?s" "alphaDecay ?s < 1" by simp_all
  from init have m: "0 < alphaMin ?s" "alphaMin ?s \<le> 1" by simp_all
  from cooling_halts[OF init(4) init(2) init(1) d m] obtain N where
    N: "0 < N" "?q ^ N < alphaMin ?s" "\<forall>n<N. alphaMin ?s \<le> ?q ^ n"
    and all: "\<And>n. steps n ?s = ?s\<lparr>alpha := ?q ^ min n N, ticks := ticks ?s + min n N,
                                 running := n < N\<rparr>"
    by blast
  have fr: "sims (run forces init (replicate n Frame) st') s = steps n ?s" for n
    using frames_steps[OF lt, of forces init n] by simp
  have run: "running (sims (run forces init (replicate n Frame) st') s) = (n < N) \<and>
             ticks (sims (run forces init (replicate n Frame) st') s) = min n N \<and>
             alpha (sims (run forces init (replicate n Frame) st') s) = ?q ^ min n N" for n
    using all[of n] init(5) by (simp add: fr)
  have mono: "alpha (sims (run forces init (replicate (Suc n) Frame) st') s)
          \<le> alpha (sims (run forces init (replicate n Frame) st') s)" for n
  proof -
    have "?q ^ min (Suc n) N \<le> ?q ^ min n N"
      using d by (intro power_decreasing) simp_all
    with run[of n] run[of "Suc n"] show ?thesis by simp
  qed
  from N run have "\<exists>N>0. ?q ^ N < alphaMin ?s \<and> (\<forall>n<N. alphaMin ?s \<le> ?q ^ n) \<and>
        (\<forall>n. running (sims (run forces init (replicate n Frame) st') s) = (n < N) \<and>
             ticks (sims (run forces init (replicate n Frame) st') s) = min n N \<and>
             alpha (sims (run forces init (replicate n Frame) st') s) = ?q ^ min n N)"
    by (intro exI[of _ N]) simp
  with init d mono show ?thesis by simp
qed

theorem alpha_cools_and_halts_witness:
  "effect ex_init (ex_props 0 None) ex_state =
     (fst (effect ex_init (ex_props 0 None) ex_state), Cleanup 0) \<and>
   alpha (sims (fst (effect ex_init (ex_props 0 None) ex_state)) 0) = 1 \<and>
   alpha (sims (run ex_forces ex_init (replicate (Suc 0) Frame) (fst (effect ex_init (ex_props 0 None) ex_state))) 0) \<le> 1 \<and>
   (\<exists>n. \<not> running (sims (run ex_forces ex_init (replicate n Frame) (fst (effect ex_init (ex_props 0 None) ex_state))) 0))"
proof -
  let ?st' = "fst (effect ex_init (ex_props 0 None) ex_state)"
  have h: "effect ex_init (ex_props 0 None) ex_state = (?st', Cleanup 0)"
    by (simp add: ex_defs model_defs)
  note t = alpha_cools_and_halts[OF h]
  from t obtain N where
    "\<forall>n. running (sims (run ex_forces ex_init (replicate n Frame) ?st') 0) = (n < N)"
    by blast
  then have "\<not> running (sims (run ex_forces ex_init (replicate N Frame) ?st') 0)" by simp
  then have halts: "\<exists>n. \<not> running (sims (run ex_forces ex_init (replicate n Frame) ?st') 0)" ..
  from t have a1: "alpha (sims ?st' 0) = 1" by blast
  from t have "alpha (sims (run ex_forces ex_init (replicate (Suc 0) Frame) ?st') 0)
      \<le> alpha (sims (run ex_forces ex_init (replicate 0 Frame) ?st') 0)"
    by blast
  with a1 have le: "alpha (sims (run ex_forces ex_init (replicate (Suc 0) Frame) ?st') 0) \<le> 1" by simp
  from h a1 le halts show ?thesis by blast
qed

text \<open>
  C7. In the simulation an effect run constructs, the link force gives every link the
  target distance 150. The strength values of the links do not reach the link force: with
  the strength values of the GraphData replaced by any others the effect constructs a
  link force with the same distances and the same stiffnesses.
\<close>

theorem link_distance_ignores_strength:
  assumes "effect init props st = (st', Cleanup s)"
    and "length vs = length (links (graphs st (data props)))"
  shows "\<exists>lf st2 lf2.
     link_force (sims st' s) = Some lf \<and>
     length (distances lf) = length (links (graphs st (data props))) \<and>
     (\<forall>i<length (distances lf). distances lf ! i = 150) \<and>
     effect init props
       (st\<lparr>graphs := (graphs st)(data props :=
          (graphs st (data props))\<lparr>links := with_strengths vs (links (graphs st (data props)))\<rparr>)\<rparr>)
       = (st2, Cleanup s) \<and>
     link_force (sims st2 s) = Some lf2 \<and>
     distances lf2 = distances lf \<and> strengths lf2 = strengths lf"
proof -
  let ?d = "graphs st (data props)"
  let ?h = "initializeNodes init 0 (nodes ?d) (heap st)"
  let ?st = "st\<lparr>graphs := (graphs st)(data props := ?d\<lparr>links := with_strengths vs (links ?d)\<rparr>)\<rparr>"
  from effect_Cleanup[OF assms(1)] obtain svg ls where
    svg: "svgRef st = Some svg" and ne: "nodes ?d \<noteq> []" and s: "s = n_sims st"
    and r: "resolve_links ?h (nodes ?d) (links ?d) = (ls, None)"
    and sims': "sims st' = (sims st)(s := add_forces ls (innerWidth st) (innerHeight st)
                   (new_simulation (nodes ?d)))"
    by auto
  from r resolve_links_length[of ?h "nodes ?d" "links ?d"]
  have len: "length ls = length (links ?d)" by simp
  let ?lf = "forceLink (\<lambda>l. 150) ls"
  have lf: "link_force (sims st' s) = Some ?lf"
    using sims' by (simp add: add_forces_def)
  have dist: "length (distances ?lf) = length (links ?d) \<and>
      (\<forall>i<length (distances ?lf). distances ?lf ! i = 150)"
    using len by (simp add: forceLink_def)
  let ?ls2 = "with_strengths vs ls"
  from resolve_links_with_strengths[OF assms(2), of ?h "nodes ?d"] r
  have r2: "resolve_links ?h (nodes ?d) (with_strengths vs (links ?d)) = (?ls2, None)"
    by simp
  obtain st2 where e2: "effect init props ?st = (st2, Cleanup s)"
    and sims2: "sims st2 s = add_forces ?ls2 (innerWidth st) (innerHeight st) (new_simulation (nodes ?d))"
    using svg ne s r2 by (simp add: effect_def Let_def forceSimulation_def)
  let ?lf2 = "forceLink (\<lambda>l. 150) ?ls2"
  have lf2: "link_force (sims st2 s) = Some ?lf2"
    using sims2 by (simp add: add_forces_def)
  from assms(2) len have lv: "length vs = length ls" by simp
  have "map (defaultStrength ?ls2) ?ls2 = map (defaultStrength ls) ls"
    using with_strengths_endpoints[OF lv] by (intro strengths_endpoints) simp_all
  then have str: "strengths ?lf2 = strengths ?lf"
    by (simp add: forceLink_def)
  have dst: "distances ?lf2 = distances ?lf"
    using with_strengths_length[OF lv] by (simp add: forceLink_def map_replicate_const)
  from lf dist e2 lf2 str dst show ?thesis
    by (intro exI[of _ ?lf] exI[of _ st2] exI[of _ ?lf2]) simp
qed

theorem link_distance_ignores_strength_witness:
  "effect ex_init (ex_props 0 None) ex_state =
     (fst (effect ex_init (ex_props 0 None) ex_state), Cleanup 0) \<and>
   length [9::real] = length (links (graphs ex_state (data (ex_props 0 None)))) \<and>
   map_option distances (link_force (sims (fst (effect ex_init (ex_props 0 None) ex_state)) 0)) = Some [150] \<and>
   map strength (with_strengths [9] (links (graphs ex_state (data (ex_props 0 None))))) = [9]"
proof -
  have h: "effect ex_init (ex_props 0 None) ex_state =
     (fst (effect ex_init (ex_props 0 None) ex_state), Cleanup 0)"
    by (simp add: ex_defs model_defs)
  have l: "length [9::real] = length (links (graphs ex_state (data (ex_props 0 None))))"
    by (simp add: ex_defs)
  from link_distance_ignores_strength[OF h l] h l show ?thesis
    by (simp add: ex_defs model_defs with_strengths_def)
qed

text \<open>
  Where the teardown removes the node groups, the stop is final. The cleanup of the effect
  stops the simulation: it is not running after an unmount and after a render with
  changed dependencies. After a teardown by unmount, or by a change of props to a
  GraphData with a non-empty node list, the stopped simulation is not running and
  executes no further tick, whatever events follow.
\<close>

theorem teardown_stops_ticking:
  assumes "st = run forces init evs (mounted h gs w ht)" and "cleanup st = Some s"
    and "st' = unmount st \<or>
         (deps st \<noteq> Some props \<and> nodes (graphs st (data props)) \<noteq> [] \<and> st' = render init props st)"
  shows "\<not> running (sims (unmount st) s) \<and>
         (deps st \<noteq> Some props' \<longrightarrow> \<not> running (sims (render init props' st) s)) \<and>
         \<not> running (sims (run forces init evs' st') s) \<and>
         ticks (sims (run forces init evs' st') s) = ticks (sims st s)"
proof -
  from assms(1) have "consistent st" by (simp add: reachable_consistent)
  with assms(2) obtain svg where lt: "s < n_sims st" and svg: "svgRef st = Some svg"
    by (auto simp: consistent_def split: option.splits)
  let ?c = "run_cleanup st"
  have cs: "sims ?c s = stop (sims st s)" using assms(2) by (simp add: run_cleanup_sims)
  have un: "\<not> running (sims (unmount st) s)"
    using cs by (simp add: unmount_def stop_def)
  have re: "\<not> running (sims (render init props' st) s)" if "deps st \<noteq> Some props'"
  proof -
    from lt have "s < n_sims ?c" by (simp add: run_cleanup_simps)
    from effect_sims_other[OF this, of init props'] cs
    have "sims (fst (effect init props' ?c)) s = stop (sims st s)" by simp
    with that show ?thesis
      by (cases "effect init props' ?c"; cases "snd (effect init props' ?c)")
         (auto simp: render_def stop_def)
  qed
  have d: "detached s st' \<and> sims st' s = stop (sims st s)"
    using assms(3)
  proof
    assume "st' = unmount st"
    with lt cs show ?thesis
      by (simp add: unmount_def detached_def run_cleanup_simps stop_def)
  next
    assume a: "deps st \<noteq> Some props \<and> nodes (graphs st (data props)) \<noteq> [] \<and> st' = render init props st"
    obtain st2 out where e: "effect init props ?c = (st2, out)" by force
    from lt have lt': "s < n_sims ?c" by (simp add: run_cleanup_simps)
    from effect_sims_other[OF lt', of init props] e cs
    have same: "sims st2 s = stop (sims st s)" by simp
    show ?thesis
    proof (cases out)
      case Skipped
      with e effect_Skipped_iff[of init props ?c] a svg show ?thesis
        by (simp add: run_cleanup_simps)
    next
      case (Threw err)
      from effect_Threw[OF e[unfolded Threw]] e a Threw lt same show ?thesis
        by (auto simp: render_def detached_def run_cleanup_simps stop_def)
    next
      case (Cleanup s2)
      from effect_Cleanup[OF e[unfolded Cleanup]] e a Cleanup lt same show ?thesis
        by (auto simp: render_def detached_def run_cleanup_simps stop_def draw_nodes_def list_all_iff)
    qed
  qed
  with detached_run[of s st' forces init evs'] un re show ?thesis
    by (simp add: stop_def detached_def)
qed

theorem teardown_stops_ticking_witness:
  "(let st = run ex_forces ex_init [Render (ex_props 0 None), Frame] ex_state;
        st' = render ex_init (ex_props 3 None) st;
        st'' = run ex_forces ex_init [DragStart 0 ex_event, Frame,
                 GestureEnd \<lparr>el_datum = 1, el_fill = [], el_stroke = [], el_sim = 0\<rparr> ex_event,
                 Frame, Zoom (Pan 1 1)] st'
    in cleanup st = Some 0 \<and> deps st \<noteq> Some (ex_props 3 None) \<and>
       nodes (graphs st (data (ex_props 3 None))) \<noteq> [] \<and>
       deps st \<noteq> Some (ex_props 1 None) \<and>
       \<not> running (sims (render ex_init (ex_props 1 None) st) 0) \<and>
       \<not> running (sims st'' 0) \<and> ticks (sims st'' 0) = ticks (sims st 0))"
proof -
  let ?st = "run ex_forces ex_init [Render (ex_props 0 None), Frame] ex_state"
  let ?st' = "render ex_init (ex_props 3 None) ?st"
  have a: "?st = run ex_forces ex_init [Render (ex_props 0 None), Frame] (mounted ex_heap ex_graphs 800 600)"
    by (simp add: ex_state_def)
  have b: "cleanup ?st = Some 0"
    by (simp add: ex_defs model_defs)
  have c: "deps ?st \<noteq> Some (ex_props 3 None)"
    by (simp add: ex_defs model_defs)
  have d: "nodes (graphs ?st (data (ex_props 3 None))) \<noteq> []"
    by (simp add: ex_defs model_defs)
  have e: "?st' = unmount ?st \<or>
     (deps ?st \<noteq> Some (ex_props 3 None) \<and> nodes (graphs ?st (data (ex_props 3 None))) \<noteq> [] \<and>
      ?st' = render ex_init (ex_props 3 None) ?st)"
    using c d by blast
  have f: "deps ?st \<noteq> Some (ex_props 1 None)"
    by (simp add: ex_defs model_defs)
  from teardown_stops_ticking[OF a b e,
      where evs' = "[DragStart 0 ex_event, Frame,
                 GestureEnd \<lparr>el_datum = 1, el_fill = [], el_stroke = [], el_sim = 0\<rparr> ex_event,
                 Frame, Zoom (Pan 1 1)]"
        and props' = "ex_props 1 None"] b c d f
  show ?thesis
    unfolding Let_def by blast
qed

text \<open>
  C9. The code at the failing input. The component shows a graph of two nodes and is then
  rendered with a GraphData without nodes: the cleanup stops the simulation, which has
  executed no tick, but the effect returns at its guard before it clears the svg, so the
  node groups of the first graph stay with their handlers. A drag start on one of them
  restarts the stopped simulation, and the next frame executes a tick of it.
\<close>

theorem teardown_empty_graph_restart:
  "cleanup (run ex_forces ex_init [Render (ex_props 0 None)] ex_state) = Some 0 \<and>
   \<not> running (sims (run ex_forces ex_init [Render (ex_props 0 None), Render (ex_props 1 None)] ex_state) 0) \<and>
   ticks (sims (run ex_forces ex_init [Render (ex_props 0 None), Render (ex_props 1 None)] ex_state) 0) = 0 \<and>
   running (sims (run ex_forces ex_init [Render (ex_props 0 None), Render (ex_props 1 None),
      DragStart 0 ex_event] ex_state) 0) \<and>
   ticks (sims (run ex_forces ex_init [Render (ex_props 0 None), Render (ex_props 1 None),
      DragStart 0 ex_event, Frame] ex_state) 0) = 1"
  by (simp add: ex_defs model_defs ex_event_def Let_def)

text \<open>
  C10. For a GraphData whose node list is empty the effect is a no-op: it returns at its
  guard, so a render constructs no simulation, draws nothing, touches no node or link and
  raises no error, also when the link list is not empty.
\<close>

theorem empty_node_list_is_noop:
  "nodes (graphs st (data props)) = [] \<Longrightarrow>
     effect init props st = (st, Skipped) \<and>
     n_sims (render init props st) = n_sims st \<and>
     svgRef (render init props st) = svgRef st \<and>
     heap (render init props st) = heap st \<and>
     graphs (render init props st) = graphs st \<and>
     thrown (render init props st) = thrown st"
  by (auto simp: effect_def render_def run_cleanup_def Let_def split: option.splits)

theorem empty_node_list_is_noop_witness:
  "nodes (graphs ex_state (data (ex_props 1 None))) = [] \<and>
   links (graphs ex_state (data (ex_props 1 None))) \<noteq> [] \<and>
   effect ex_init (ex_props 1 None) ex_state = (ex_state, Skipped) \<and>
   n_sims (render ex_init (ex_props 1 None) ex_state) = 0 \<and>
   thrown (render ex_init (ex_props 1 None) ex_state) = None"
  using empty_node_list_is_noop[of ex_state "ex_props 1 None" ex_init]
  by (simp add: ex_defs)


end
